theory Spec2Isabelle
  imports Main
begin

section \<open>JavaScript values as the servers see them\<close>

text \<open>
  A JavaScript string is a sequence of UTF-16 code units. A code unit is given by its
  number (below 65536); the operations below compare code units and never compute with
  them beyond a case shift, so nothing wraps around. String literals of the sources are
  ASCII and are written \<open>js ''...''\<close>.
\<close>

type_synonym jschar = nat
type_synonym jsstring = "jschar list"

definition js :: "string \<Rightarrow> jsstring" where
  "js s = map of_char s"

text \<open>
  The request parameters \<open>carrier\<close> and \<open>code\<close> come from \<open>req.query\<close> or from a JSON
  body, so they need not be strings. The code observes three things of such a value:
  whether it is truthy, whether it has the string methods, and its string conversion.
  \<open>JPrimitive t s\<close> is a number or a boolean with truthiness \<open>t\<close> and string conversion
  \<open>s\<close>; \<open>JObject r\<close> is an array or an object (always truthy), \<open>r\<close> its string conversion,
  \<open>None\<close> when the conversion throws.
\<close>

datatype jsval =
    JUndefined
  | JNull
  | JString jsstring
  | JPrimitive bool jsstring
  | JObject "jsstring option"

datatype exn =
    TypeError
  | URIError
  | Error jsstring

fun truthy :: "jsval \<Rightarrow> bool" where
  "truthy JUndefined = False"
| "truthy JNull = False"
| "truthy (JString s) = (s \<noteq> [])"
| "truthy (JPrimitive t s) = t"
| "truthy (JObject r) = True"

text \<open>\<open>String(v)\<close>, as template literals and \<open>encodeURIComponent\<close> apply it.\<close>

fun toString :: "jsval \<Rightarrow> exn + jsstring" where
  "toString JUndefined = Inr (js ''undefined'')"
| "toString JNull = Inr (js ''null'')"
| "toString (JString s) = Inr s"
| "toString (JPrimitive t s) = Inr s"
| "toString (JObject None) = Inl TypeError"
| "toString (JObject (Some s)) = Inr s"

text \<open>\<open>a || b\<close> on values.\<close>

definition js_or :: "jsval \<Rightarrow> jsval \<Rightarrow> jsval" where
  "js_or a b = (if truthy a then a else b)"

subsection \<open>String.prototype.toLowerCase\<close>

text \<open>
  Lower-casing of one code unit: ASCII, Latin-1, and the three code units above Latin-1
  whose lower case falls into ASCII or Latin-1 (U+0130, U+212A, U+212B). Every other
  code unit above U+00FF is left as it is: its lower case, whatever Unicode makes it, is
  not an ASCII letter, so the result of comparing the lower-cased carrier with the ASCII
  carrier ids of the sources is the same.
\<close>

definition lower_units :: "jschar \<Rightarrow> jsstring" where
  "lower_units c =
     (if 0x41 \<le> c \<and> c \<le> 0x5A then [c + 0x20]
      else if 0xC0 \<le> c \<and> c \<le> 0xDE \<and> c \<noteq> 0xD7 then [c + 0x20]
      else if c = 0x130 then [0x69, 0x307]
      else if c = 0x212A then [0x6B]
      else if c = 0x212B then [0xE5]
      else [c])"

definition toLowerCase :: "jsstring \<Rightarrow> jsstring" where
  "toLowerCase s = concat (map lower_units s)"

text \<open>\<open>v.toLowerCase()\<close>: only a string has the method.\<close>

fun call_toLowerCase :: "jsval \<Rightarrow> exn + jsstring" where
  "call_toLowerCase (JString s) = Inr (toLowerCase s)"
| "call_toLowerCase v = Inl TypeError"

subsection \<open>encodeURIComponent\<close>

definition unreserved :: "jschar \<Rightarrow> bool" where
  "unreserved c \<longleftrightarrow>
     (0x41 \<le> c \<and> c \<le> 0x5A) \<or> (0x61 \<le> c \<and> c \<le> 0x7A) \<or> (0x30 \<le> c \<and> c \<le> 0x39)
     \<or> c = 0x2D \<or> c = 0x5F \<or> c = 0x2E \<or> c = 0x21 \<or> c = 0x7E \<or> c = 0x2A
     \<or> c = 0x27 \<or> c = 0x28 \<or> c = 0x29"

definition hex_digit :: "nat \<Rightarrow> jschar" where
  "hex_digit n = (if n < 10 then 0x30 + n else 0x41 + (n - 10))"

definition percent :: "nat \<Rightarrow> jsstring" where
  "percent b = [0x25, hex_digit (b div 16), hex_digit (b mod 16)]"

definition utf8 :: "nat \<Rightarrow> nat list" where
  "utf8 cp =
     (if cp < 0x80 then [cp]
      else if cp < 0x800 then [0xC0 + cp div 64, 0x80 + cp mod 64]
      else if cp < 0x10000 then
        [0xE0 + cp div 4096, 0x80 + (cp div 64) mod 64, 0x80 + cp mod 64]
      else
        [0xF0 + cp div 262144, 0x80 + (cp div 4096) mod 64,
         0x80 + (cp div 64) mod 64, 0x80 + cp mod 64])"

definition high_surrogate :: "jschar \<Rightarrow> bool" where
  "high_surrogate c \<longleftrightarrow> 0xD800 \<le> c \<and> c \<le> 0xDBFF"

definition low_surrogate :: "jschar \<Rightarrow> bool" where
  "low_surrogate c \<longleftrightarrow> 0xDC00 \<le> c \<and> c \<le> 0xDFFF"

definition pair_code_point :: "jschar \<Rightarrow> jschar \<Rightarrow> nat" where
  "pair_code_point h l = (h - 0xD800) * 0x400 + (l - 0xDC00) + 0x10000"

definition escape :: "nat \<Rightarrow> jsstring" where
  "escape cp = concat (map percent (utf8 cp))"

text \<open>
  The encoding loop: an unreserved code unit is copied, any other code point is written
  as the percent-escapes of its UTF-8 bytes, and a surrogate without its partner throws
  \<open>URIError\<close>.
\<close>

fun encode :: "jsstring \<Rightarrow> exn + jsstring" where
  "encode [] = Inr []"
| "encode [c] =
     (if unreserved c then Inr [c]
      else if high_surrogate c \<or> low_surrogate c then Inl URIError
      else Inr (escape c))"
| "encode (c # d # s) =
     (if unreserved c then
        (case encode (d # s) of Inl e \<Rightarrow> Inl e | Inr r \<Rightarrow> Inr (c # r))
      else if low_surrogate c then Inl URIError
      else if high_surrogate c then
        (if low_surrogate d then
           (case encode s of Inl e \<Rightarrow> Inl e | Inr r \<Rightarrow> Inr (escape (pair_code_point c d) @ r))
         else Inl URIError)
      else
        (case encode (d # s) of Inl e \<Rightarrow> Inl e | Inr r \<Rightarrow> Inr (escape c @ r)))"

definition encodeURIComponent :: "jsval \<Rightarrow> exn + jsstring" where
  "encodeURIComponent v = (case toString v of Inl e \<Rightarrow> Inl e | Inr s \<Rightarrow> encode s)"

section \<open>Carrier registry: officialLink\<close>

text \<open>
  The template literal \<open>`prefix${encodeURIComponent(code)}suffix`\<close>: the URL when the
  encoding returns, its exception otherwise.
\<close>

definition template :: "string \<Rightarrow> jsval \<Rightarrow> string \<Rightarrow> exn + jsstring option" where
  "template pre code post =
     (case encodeURIComponent code of
        Inl e \<Rightarrow> Inl e
      | Inr enc \<Rightarrow> Inr (Some (js pre @ enc @ js post)))"

definition dhl_url :: "jsval \<Rightarrow> exn + jsstring option" where
  "dhl_url code = template ''https://www.dhl.com/mx-es/home/rastreo.html?tracking-id='' code ''''"

definition fedex_url :: "jsval \<Rightarrow> exn + jsstring option" where
  "fedex_url code = template ''https://www.fedex.com/fedextrack/?trknbr='' code ''&cntry_code=mx_esp''"

definition ups_url :: "jsval \<Rightarrow> exn + jsstring option" where
  "ups_url code = template ''https://www.ups.com/track?loc=es_MX&tracknum='' code ''&requester=ST/''"

definition delta_url :: "jsval \<Rightarrow> exn + jsstring option" where
  "delta_url code =
     template ''https://www.deltacargo.com/Cargo/trackShipment?airbillnumber='' code ''''"

definition expeditors_url :: "jsstring" where
  "expeditors_url = js ''https://www.expeditors.com/tracking''"

text \<open>
  The \<open>switch\<close> of server.js (the copy of part\_001 is the same): the cases in the order
  of the source, \<open>default\<close> last.
\<close>

definition switch_link :: "jsstring \<Rightarrow> jsval \<Rightarrow> exn + jsstring option" where
  "switch_link c code =
     (if c = js ''dhl'' then dhl_url code
      else if c = js ''fedex'' then fedex_url code
      else if c = js ''ups'' then ups_url code
      else if c = js ''delta'' \<or> c = js ''delta-cargo'' \<or> c = js ''deltacargo''
        then delta_url code
      else if c = js ''expeditors'' then Inr (Some expeditors_url)
      else Inr None)"

text \<open>The case labels of that \<open>switch\<close>: the carrier ids server.js supports.\<close>

definition carrier_ids :: "jsstring list" where
  "carrier_ids =
     [js ''dhl'', js ''fedex'', js ''ups'', js ''delta'', js ''delta-cargo'', js ''deltacargo'',
      js ''expeditors'']"

text \<open>server.js and part\_001: \<open>const c = (carrier || "").toLowerCase()\<close>.\<close>

definition officialLink :: "jsval \<Rightarrow> jsval \<Rightarrow> exn + jsstring option" where
  "officialLink carrier code =
     (case call_toLowerCase (js_or carrier (JString [])) of
        Inl e \<Rightarrow> Inl e
      | Inr c \<Rightarrow> switch_link c code)"

text \<open>app.js (the POST server): the same guard, but no \<open>case "deltacargo"\<close>.\<close>

definition officialLink_app :: "jsval \<Rightarrow> jsval \<Rightarrow> exn + jsstring option" where
  "officialLink_app carrier code =
     (case call_toLowerCase (js_or carrier (JString [])) of
        Inl e \<Rightarrow> Inl e
      | Inr c \<Rightarrow>
          (if c = js ''dhl'' then dhl_url code
           else if c = js ''fedex'' then fedex_url code
           else if c = js ''ups'' then ups_url code
           else if c = js ''delta'' \<or> c = js ''delta-cargo'' then delta_url code
           else if c = js ''expeditors'' then Inr (Some expeditors_url)
           else Inr None))"

text \<open>part\_000: \<open>const c = carrier.toLowerCase()\<close>, with no guard.\<close>

definition officialLink_000 :: "jsval \<Rightarrow> jsval \<Rightarrow> exn + jsstring option" where
  "officialLink_000 carrier code =
     (case (case carrier of
              JUndefined \<Rightarrow> Inl TypeError
            | JNull \<Rightarrow> Inl TypeError
            | v \<Rightarrow> call_toLowerCase v) of
        Inl e \<Rightarrow> Inl e
      | Inr c \<Rightarrow> switch_link c code)"

section \<open>Regular expressions\<close>

text \<open>
  The regular expressions of part\_000 and of the legacy server, as data, and the
  backtracking matcher of the language over them. A quantifier stands on a character
  class only, which is all these expressions use.
\<close>

datatype citem =
    CChar jschar
  | CRange jschar jschar
  | CSpace
  | CDigit

datatype re =
    Lit jsstring
  | Rep "citem list" nat "nat option"
  | Seq "re list"
  | Alt "re list"
  | Grp nat re

text \<open>The characters \<open>\s\<close> matches; \<open>trim\<close> strips the same ones.\<close>

definition is_space :: "jschar \<Rightarrow> bool" where
  "is_space c \<longleftrightarrow>
     (0x09 \<le> c \<and> c \<le> 0x0D) \<or> c = 0x20 \<or> c = 0xA0 \<or> c = 0x1680
     \<or> (0x2000 \<le> c \<and> c \<le> 0x200A) \<or> c = 0x2028 \<or> c = 0x2029 \<or> c = 0x202F
     \<or> c = 0x205F \<or> c = 0x3000 \<or> c = 0xFEFF"

definition is_digit :: "jschar \<Rightarrow> bool" where
  "is_digit c \<longleftrightarrow> 0x30 \<le> c \<and> c \<le> 0x39"

text \<open>
  Canonicalize of the \<open>i\<close> flag (without the \<open>u\<close> flag): the upper case of the code
  unit when that is one code unit, except that a non-ASCII unit never becomes an ASCII
  one. ASCII and Latin-1 are written out (U+00DF has a two-letter upper case and stays);
  a unit above U+00FF is left as it is here: none of them canonicalizes to the
  canonical form of a character of these expressions.
\<close>

definition canonicalize :: "jschar \<Rightarrow> jschar" where
  "canonicalize c =
     (if 0x61 \<le> c \<and> c \<le> 0x7A then c - 0x20
      else if c = 0xB5 then 0x39C
      else if 0xE0 \<le> c \<and> c \<le> 0xFE \<and> c \<noteq> 0xF7 then c - 0x20
      else if c = 0xFF then 0x178
      else c)"

definition char_eq :: "bool \<Rightarrow> jschar \<Rightarrow> jschar \<Rightarrow> bool" where
  "char_eq ic a c = (if ic then canonicalize a = canonicalize c else a = c)"

text \<open>
  A class item matches \<open>c\<close> when one of its members does; with the \<open>i\<close> flag, when one
  of its members has the canonical form of \<open>c\<close>. The case variants of \<open>c\<close> are the code
  units with that canonical form.
\<close>

definition case_variants :: "jschar \<Rightarrow> jschar list" where
  "case_variants c =
     [c, canonicalize c] @
     (if 0x41 \<le> c \<and> c \<le> 0x5A then [c + 0x20]
      else if 0xC0 \<le> c \<and> c \<le> 0xDE \<and> c \<noteq> 0xD7 then [c + 0x20]
      else if c = 0x39C then [0xB5]
      else if c = 0x178 then [0xFF]
      else [])"

fun item_match :: "bool \<Rightarrow> jschar \<Rightarrow> citem \<Rightarrow> bool" where
  "item_match ic c (CChar a) = char_eq ic a c"
| "item_match ic c (CRange lo hi) =
     list_ex (\<lambda>v. lo \<le> v \<and> v \<le> hi) (if ic then case_variants c else [c])"
| "item_match ic c CSpace = list_ex is_space (if ic then case_variants c else [c])"
| "item_match ic c CDigit = list_ex is_digit (if ic then case_variants c else [c])"

definition cls_match :: "bool \<Rightarrow> citem list \<Rightarrow> jschar \<Rightarrow> bool" where
  "cls_match ic items c = list_ex (item_match ic c) items"

fun starts_with :: "bool \<Rightarrow> jsstring \<Rightarrow> jsstring \<Rightarrow> bool" where
  "starts_with ic [] s = True"
| "starts_with ic (p # ps) [] = False"
| "starts_with ic (p # ps) (c # cs) = (char_eq ic p c \<and> starts_with ic ps cs)"

text \<open>
  The state of a match: the input still to read, and the captures made so far. The
  matcher returns every way to match, first the one backtracking finds first: a greedy
  quantifier its longest run first, an alternation its alternatives left to right.
\<close>

type_synonym captures = "nat \<rightharpoonup> jsstring"
type_synonym mstate = "jsstring \<times> captures"

definition consumed :: "jsstring \<Rightarrow> jsstring \<Rightarrow> jsstring" where
  "consumed s rest = take (length s - length rest) s"

definition run_length :: "bool \<Rightarrow> citem list \<Rightarrow> nat option \<Rightarrow> jsstring \<Rightarrow> nat" where
  "run_length ic items mx s =
     (let n = length (takeWhile (cls_match ic items) s)
      in case mx of None \<Rightarrow> n | Some m \<Rightarrow> min m n)"

fun rmatch :: "bool \<Rightarrow> re \<Rightarrow> mstate \<Rightarrow> mstate list" where
  "rmatch ic (Lit p) (s, caps) =
     (if starts_with ic p s then [(drop (length p) s, caps)] else [])"
| "rmatch ic (Rep items mn mx) (s, caps) =
     map (\<lambda>n. (drop n s, caps)) (rev [mn ..< Suc (run_length ic items mx s)])"
| "rmatch ic (Seq []) st = [st]"
| "rmatch ic (Seq (r # rs)) st = concat (map (rmatch ic (Seq rs)) (rmatch ic r st))"
| "rmatch ic (Alt []) st = []"
| "rmatch ic (Alt (r # rs)) st = rmatch ic r st @ rmatch ic (Alt rs) st"
| "rmatch ic (Grp i r) (s, caps) =
     map (\<lambda>(rest, caps'). (rest, caps'(i \<mapsto> consumed s rest))) (rmatch ic r (s, caps))"

text \<open>The leftmost match: the first start position at which the expression matches.\<close>

fun search :: "bool \<Rightarrow> re \<Rightarrow> jsstring \<Rightarrow> (jsstring \<times> captures) option" where
  "search ic r [] =
     (case rmatch ic r ([], Map.empty) of
        [] \<Rightarrow> None
      | (rest, caps) # _ \<Rightarrow> Some ([], caps))"
| "search ic r (c # cs) =
     (case rmatch ic r (c # cs, Map.empty) of
        [] \<Rightarrow> search ic r cs
      | (rest, caps) # _ \<Rightarrow> Some (consumed (c # cs) rest, caps))"

fun ngroups :: "re \<Rightarrow> nat" where
  "ngroups (Lit p) = 0"
| "ngroups (Rep items mn mx) = 0"
| "ngroups (Seq rs) = sum_list (map ngroups rs)"
| "ngroups (Alt rs) = sum_list (map ngroups rs)"
| "ngroups (Grp i r) = Suc (ngroups r)"

text \<open>
  \<open>re.test(text)\<close>, and \<open>text.match(re)\<close> for an expression without the \<open>g\<close> flag:
  \<open>null\<close>, or the array of the whole match followed by the capture groups 1 to n
  (\<open>undefined\<close>, here \<open>None\<close>, for a group that took no part).
\<close>

definition test :: "bool \<Rightarrow> re \<Rightarrow> jsstring \<Rightarrow> bool" where
  "test ic r s = (search ic r s \<noteq> None)"

definition match :: "bool \<Rightarrow> re \<Rightarrow> jsstring \<Rightarrow> jsstring option list option" where
  "match ic r s =
     (case search ic r s of
        None \<Rightarrow> None
      | Some (whole, caps) \<Rightarrow> Some (Some whole # map caps [1 ..< Suc (ngroups r)]))"


section \<open>Text clean-up\<close>

text \<open>
  \<open>s.replace(/[class]+/g, " ")\<close>: every maximal run of characters of the class becomes
  one space.
\<close>

function collapse :: "(jschar \<Rightarrow> bool) \<Rightarrow> jsstring \<Rightarrow> jsstring" where
  "collapse P [] = []"
| "collapse P (c # cs) =
     (if P c then 0x20 # collapse P (dropWhile P cs) else c # collapse P cs)"
  by pat_completeness auto
termination
  by (relation "measure (\<lambda>(P, s). length s)")
     (auto simp: length_dropWhile_le less_Suc_eq_le)

definition trim :: "jsstring \<Rightarrow> jsstring" where
  "trim s = rev (dropWhile is_space (rev (dropWhile is_space s)))"

section \<open>part\_000: extractStatusAndEta\<close>

definition a_acute :: jschar where
  "a_acute = 0xE1"

definition statusCandidates :: "re list" where
  "statusCandidates =
     [Lit (js ''entregado''),
      Lit (js ''en tr'' @ [a_acute] @ js ''nsito''),
      Lit (js ''en camino''),
      Lit (js ''recogido''),
      Lit (js ''listo para entrega''),
      Lit (js ''demorado''),
      Lit (js ''delivered''),
      Lit (js ''out for delivery''),
      Lit (js ''in transit''),
      Lit (js ''picked up''),
      Lit (js ''delayed'')]"

text \<open>The pieces the four date expressions share.\<close>

definition spaces :: re where
  "spaces = Rep [CSpace] 0 None"

definition colon_or_dash :: re where
  "colon_or_dash = Rep [CChar 0x3A, CChar 0x2D] 0 (Some 1)"

definition digits_0_9 :: "nat \<Rightarrow> nat \<Rightarrow> re" where
  "digits_0_9 mn mx = Rep [CRange 0x30 0x39] mn (Some mx)"

definition numeric_date :: re where
  "numeric_date =
     Seq [digits_0_9 1 2, Lit (js ''/''), digits_0_9 1 2, Lit (js ''/''), digits_0_9 2 4]"

definition adjective :: re where
  "adjective = Alt [Lit (js ''estimada''), Lit (js ''prevista''), Lit (js ''programada'')]"

definition spanish_letters :: "citem list" where
  "spanish_letters =
     [CRange 0x41 0x5A, CRange 0x61 0x7A,
      CChar 0xC1, CChar 0xC9, CChar 0xCD, CChar 0xD3, CChar 0xDA, CChar 0xD1,
      CRange 0x61 0x7A]"

definition english_letters :: "citem list" where
  "english_letters = [CRange 0x41 0x5A, CRange 0x61 0x7A]"

definition etaRegexes :: "re list" where
  "etaRegexes =
     [Seq [Lit (js ''entrega ''), Grp 1 adjective, spaces, colon_or_dash, spaces,
           Grp 2 numeric_date],
      Seq [Grp 1 (Alt [Lit (js ''fecha''), Lit (js ''entrega'')]), Lit (js '' ''),
           Grp 2 adjective, spaces, colon_or_dash, spaces,
           Grp 3 (Seq [Rep spanish_letters 1 None, Rep [CChar 0x2E] 0 (Some 1), spaces,
                       Rep [CDigit] 1 (Some 2), Rep [CChar 0x2C] 0 (Some 1), spaces,
                       Rep [CDigit] 4 (Some 4)])],
      Seq [Grp 1 (Alt [Lit (js ''estimated''), Lit (js ''scheduled'')]), spaces,
           Lit (js ''delivery''), spaces, colon_or_dash, spaces,
           Grp 2 (Seq [Rep english_letters 1 None, spaces, Rep [CDigit] 1 (Some 2),
                       Rep [CChar 0x2C] 0 (Some 1), spaces, Rep [CDigit] 4 (Some 4)])],
      Seq [Grp 1 (Alt [Lit (js ''estimated''), Lit (js ''scheduled'')]), spaces,
           Lit (js ''delivery''), spaces, colon_or_dash, spaces,
           Grp 2 numeric_date]]"

text \<open>
  \<open>statusCandidates.find((re) => re.test(text))\<close>, then \<open>text.match(foundStatus)[0]\<close>:
  the whole match of the first candidate that matches. The candidate found matches, so
  the \<open>match\<close> cannot be \<open>null\<close> there.
\<close>

definition find_status :: "re list \<Rightarrow> jsstring \<Rightarrow> jsstring option" where
  "find_status candidates text =
     (case List.find (\<lambda>re. test True re text) candidates of
        None \<Rightarrow> None
      | Some foundStatus \<Rightarrow>
          (case match True foundStatus text of
             Some (whole # groups) \<Rightarrow> whole
           | _ \<Rightarrow> None))"

text \<open>
  The loop over \<open>etaRegexes\<close>: the first expression that matches gives the last element
  of its match array, \<open>m[m.length - 1]\<close>, and ends the loop.
\<close>

fun eta_loop :: "re list \<Rightarrow> jsstring \<Rightarrow> jsstring option" where
  "eta_loop [] text = None"
| "eta_loop (re # rest) text =
     (case match True re text of
        Some m \<Rightarrow> last m
      | None \<Rightarrow> eta_loop rest text)"

record parsed =
  status :: "jsstring option"
  etaText :: "jsstring option"

definition extractStatusAndEta :: "jsstring \<Rightarrow> parsed" where
  "extractStatusAndEta bigText =
     (let text = trim (collapse is_space bigText)
      in \<lparr> status = find_status statusCandidates text,
           etaText = eta_loop etaRegexes text \<rparr>)"


section \<open>The legacy server: extractStatus and the result cache\<close>

text \<open>
  \<open>s.includes(p)\<close>; with the flag set, \<open>/p/i.test(s)\<close> for a literal \<open>p\<close>.
\<close>

fun str_includes :: "bool \<Rightarrow> jsstring \<Rightarrow> jsstring \<Rightarrow> bool" where
  "str_includes ic p [] = starts_with ic p []"
| "str_includes ic p (c # cs) = (starts_with ic p (c # cs) \<or> str_includes ic p cs)"

definition statuses :: "jsstring list" where
  "statuses =
     [js ''Delivered'', js ''Out for delivery'', js ''In Transit'', js ''In transit'',
      js ''Shipped'', js ''Shipment information received'',
      js ''Entregado'', js ''En reparto'', js ''En tr'' @ [a_acute] @ js ''nsito'',
      js ''En transito'', js ''En Camino'', js ''Recibido'', js ''Despachado'',
      js ''En camino'']"

text \<open>
  The loop of \<open>extractStatus\<close>: \<open>new RegExp(status, 'i')\<close> of a keyword is a literal (no
  keyword holds a character special to regular expressions), and the first keyword found
  is returned as the list spells it.
\<close>

definition extractStatus :: "jsstring \<Rightarrow> jsstring option" where
  "extractStatus text = List.find (\<lambda>status. test True (Lit status) text) statuses"

text \<open>\<open>extractStatus(bodyText || '') || 'Unknown'\<close>, as every legacy scraper ends.\<close>

definition latest_status :: "jsstring \<Rightarrow> jsstring" where
  "latest_status bodyText =
     (case extractStatus bodyText of
        None \<Rightarrow> js ''Unknown''
      | Some s \<Rightarrow> if s = [] then js ''Unknown'' else s)"

text \<open>
  The cache: a \<open>Map\<close> from key to \<open>{ value, expires }\<close>. \<open>Date.now()\<close> is a parameter, in
  milliseconds.
\<close>

record 'v entry =
  "value" :: 'v
  expires :: int

type_synonym 'v cache = "jsstring \<rightharpoonup> 'v entry"

definition CACHE_TTL_MS :: int where
  "CACHE_TTL_MS = 10 * 60 * 1000"

definition getFromCache :: "jsstring \<Rightarrow> int \<Rightarrow> 'v cache \<Rightarrow> 'v option \<times> 'v cache" where
  "getFromCache key now cache =
     (case cache key of
        None \<Rightarrow> (None, cache)
      | Some entry \<Rightarrow>
          if now < expires entry then (Some (value entry), cache)
          else (None, cache(key := None)))"

definition setInCache :: "jsstring \<Rightarrow> 'v \<Rightarrow> int \<Rightarrow> 'v cache \<Rightarrow> 'v cache" where
  "setInCache key v now cache = cache(key \<mapsto> \<lparr> value = v, expires = now + CACHE_TTL_MS \<rparr>)"

section \<open>part\_001: sanitize\<close>

text \<open>\<open>s.replace(/p/gi, "")\<close> for a literal \<open>p\<close>: its occurrences, left to right, are cut.\<close>

function remove_all :: "bool \<Rightarrow> jsstring \<Rightarrow> jsstring \<Rightarrow> jsstring" where
  "remove_all ic p [] = []"
| "remove_all ic p (c # cs) =
     (if p \<noteq> [] \<and> starts_with ic p (c # cs)
      then remove_all ic p (drop (length p) (c # cs))
      else c # remove_all ic p cs)"
  by pat_completeness auto
termination
  by (relation "measure (\<lambda>(ic, p, s). length s)") auto

definition nbsp :: jschar where
  "nbsp = 0xA0"

definition space_or_tab :: "jschar \<Rightarrow> bool" where
  "space_or_tab c \<longleftrightarrow> c = 0x20 \<or> c = 0x09"

definition skip_en :: jsstring where
  "skip_en = js ''skip to main content''"

definition skip_es :: jsstring where
  "skip_es = js ''ir al contenido principal''"

text \<open>
  The five steps of \<open>sanitize\<close>, in the order of the source. Its argument is the string
  \<open>readBodyText\<close> returns, so \<open>text || ""\<close> is \<open>text\<close>.
\<close>

definition replace_nbsp :: "jsstring \<Rightarrow> jsstring" where
  "replace_nbsp text = map (\<lambda>c. if c = nbsp then 0x20 else c) text"

definition sanitize :: "jsstring \<Rightarrow> jsstring" where
  "sanitize text =
     trim (remove_all True skip_es (remove_all True skip_en
       (collapse space_or_tab (replace_nbsp text))))"

text \<open>
  A string in which every character of the class \<open>P\<close> is a single space that no
  character of \<open>P\<close> follows: what \<open>collapse P\<close> produces and leaves alone.
\<close>

fun squeezed :: "(jschar \<Rightarrow> bool) \<Rightarrow> jsstring \<Rightarrow> bool" where
  "squeezed P [] = True"
| "squeezed P [c] = (\<not> P c \<or> c = 0x20)"
| "squeezed P (c # d # s) = ((\<not> P c \<or> (c = 0x20 \<and> \<not> P d)) \<and> squeezed P (d # s))"


section \<open>The request handlers\<close>

text \<open>
  What a scraper returns: an object of extracted fields, each a string or \<open>null\<close>
  (\<open>None\<close>); a field the object does not have is not in the list. \<open>{}\<close> is \<open>[]\<close>.
\<close>

datatype field_name = Status | Eta | DeliveredAt | SignedBy | Origin | Destination | LastScan | Title

type_synonym details = "(field_name \<times> jsstring option) list"

text \<open>
  The legacy scrapers return \<open>{ latest_status, latest_date }\<close>. The legacy table is read
  as \<open>scrapers[carrier]\<close>, which also finds what a plain object inherits; calling such a
  function returns some other value, of which the handler sees the truthiness.
\<close>

datatype legacy_value =
    Latest jsstring "jsstring option"
  | Builtin bool

datatype body =
    Tracking jsval jsval jsstring details
  | Failed jsstring "jsval option"
  | LegacyTracking jsstring jsstring legacy_value bool
  | LegacyFailed jsstring

datatype response = Response nat body

datatype scraper = FedEx | DHL | UPS | DeltaCargo | Expeditors

text \<open>
  The scrapers drive a headless browser, so they are the environment here: a scraper
  called on a URL returns its fields or throws (launch failure, navigation timeout).
  A handler returns its response together with the scraper calls it made, in order.
\<close>

type_synonym scrapers = "scraper \<Rightarrow> jsstring \<Rightarrow> exn + details"
type_synonym calls = "(scraper \<times> jsstring) list"

definition scrapeByCarrier :: "scrapers \<Rightarrow> jsval \<Rightarrow> jsstring \<Rightarrow> (exn + details) \<times> calls" where
  "scrapeByCarrier run carrier url =
     (case call_toLowerCase (js_or carrier (JString [])) of
        Inl e \<Rightarrow> (Inl e, [])
      | Inr c \<Rightarrow>
          if str_includes False (js ''fedex'') c then (run FedEx url, [(FedEx, url)])
          else if str_includes False (js ''dhl'') c then (run DHL url, [(DHL, url)])
          else if str_includes False (js ''ups'') c then (run UPS url, [(UPS, url)])
          else if str_includes False (js ''delta'') c then (run DeltaCargo url, [(DeltaCargo, url)])
          else if str_includes False (js ''expeditors'') c
            then (run Expeditors url, [(Expeditors, url)])
          else (Inr [], []))"

definition missing_parameters :: response where
  "missing_parameters = Response 400 (Failed (js ''Faltan par'' @ [a_acute] @ js ''metros: carrier y code'') None)"

definition carrier_not_supported :: "jsval \<Rightarrow> response" where
  "carrier_not_supported carrier = Response 400 (Failed (js ''Carrier no soportado'') (Some carrier))"

definition internal_error :: response where
  "internal_error = Response 500 (Failed (js ''Error interno'') None)"

text \<open>
  server.js, \<open>GET /api/track\<close>; the handler of part\_001 is the same, with one more line
  that logs the scrape error. \<open>USE_SCRAPE\<close> is the administrative toggle. The outer
  \<open>catch\<close> answers 500 to whatever \<open>officialLink\<close> throws.
\<close>

definition api_track :: "bool \<Rightarrow> scrapers \<Rightarrow> jsval \<Rightarrow> jsval \<Rightarrow> response \<times> calls" where
  "api_track USE_SCRAPE run carrier code =
     (if \<not> truthy carrier \<or> \<not> truthy code then (missing_parameters, [])
      else
        case officialLink carrier code of
          Inl e \<Rightarrow> (internal_error, [])
        | Inr None \<Rightarrow> (carrier_not_supported carrier, [])
        | Inr (Some url) \<Rightarrow>
            if url = [] then (carrier_not_supported carrier, [])
            else if USE_SCRAPE then
              (case scrapeByCarrier run carrier url of
                 (Inl e, called) \<Rightarrow> (Response 200 (Tracking carrier code url []), called)
               | (Inr details, called) \<Rightarrow>
                   (Response 200 (Tracking carrier code url details), called))
            else (Response 200 (Tracking carrier code url []), []))"

text \<open>
  part\_000, \<open>POST /api/track\<close>: it always scrapes. \<open>scrapePublicPage\<close> returns the
  body text and the title of the page, or throws.
\<close>

definition or_null :: "jsstring option \<Rightarrow> jsstring option" where
  "or_null v = (case v of None \<Rightarrow> None | Some s \<Rightarrow> if s = [] then None else Some s)"

definition post_track_000 ::
  "(jsstring \<Rightarrow> exn + jsstring \<times> jsstring) \<Rightarrow> jsval \<Rightarrow> jsval \<Rightarrow> response \<times> jsstring list" where
  "post_track_000 scrapePublicPage carrier code =
     (if \<not> truthy carrier \<or> \<not> truthy code then (missing_parameters, [])
      else
        case officialLink_000 carrier code of
          Inl e \<Rightarrow> (internal_error, [])
        | Inr None \<Rightarrow> (carrier_not_supported carrier, [])
        | Inr (Some url) \<Rightarrow>
            if url = [] then (carrier_not_supported carrier, [])
            else
              (case scrapePublicPage url of
                 Inl e \<Rightarrow>
                   (Response 200
                      (Tracking carrier code url [(Status, None), (Eta, None), (Title, None)]),
                    [url])
               | Inr (bodyText, title) \<Rightarrow>
                   (let parsed = extractStatusAndEta bodyText
                    in (Response 200
                          (Tracking carrier code url
                             [(Status, or_null (status parsed)), (Eta, or_null (etaText parsed)),
                              (Title, Some title)]),
                        [url]))))"

text \<open>
  The legacy server, \<open>GET /track/:carrier?number=\<close>. The own keys of \<open>scrapers\<close>, and
  the names a plain object inherits (all of them truthy).
\<close>

definition own_scrapers :: "jsstring list" where
  "own_scrapers = [js ''dhl'', js ''fedex'', js ''ups'', js ''delta'', js ''expeditors'']"

definition inherited :: "jsstring list" where
  "inherited =
     [js ''constructor'', js ''hasOwnProperty'', js ''isPrototypeOf'',
      js ''propertyIsEnumerable'', js ''toLocaleString'', js ''toString'', js ''valueOf'',
      js ''__proto__'', js ''__defineGetter__'', js ''__defineSetter__'',
      js ''__lookupGetter__'', js ''__lookupSetter__'']"

definition scrapers_has :: "jsstring \<Rightarrow> bool" where
  "scrapers_has carrier \<longleftrightarrow> carrier \<in> set own_scrapers \<or> carrier \<in> set inherited"

definition cacheKey :: "jsstring \<Rightarrow> jsstring \<Rightarrow> jsstring" where
  "cacheKey carrier trackingNumber = carrier @ js '':'' @ trackingNumber"

definition missing_number :: jsstring where
  "missing_number = js ''Missing '' @ [0x22] @ js ''number'' @ [0x22] @ js '' query parameter''"

definition unsupported_message :: "jsstring \<Rightarrow> jsstring" where
  "unsupported_message carrier = js ''Unsupported carrier '' @ [0x27] @ carrier @ [0x27]"

text \<open>\<open>err.message || dflt\<close>; the message of what was thrown is \<open>None\<close> when it has none.\<close>

definition message_or :: "jsstring option \<Rightarrow> jsstring \<Rightarrow> jsstring" where
  "message_or message dflt =
     (case message of None \<Rightarrow> dflt | Some m \<Rightarrow> if m = [] then dflt else m)"

text \<open>
  \<open>run carrier number\<close> is what \<open>await scrapers[carrier](trackingNumber)\<close> does: it
  returns a value, or throws something whose \<open>message\<close> is given (\<open>Inl\<close>).
\<close>

type_synonym legacy_run = "jsstring \<Rightarrow> jsstring \<Rightarrow> jsstring option + legacy_value"

text \<open>
  The \<open>try\<close> block of the legacy handler: scrape, store, answer; its \<open>catch\<close> answers
  500 with the message of the error, \<open>'Tracking failed'\<close> when it has none.
\<close>

definition scrape_and_store ::
  "legacy_run \<Rightarrow> int \<Rightarrow> legacy_value cache \<Rightarrow>
   jsstring \<Rightarrow> jsstring \<Rightarrow> exn + (response \<times> legacy_value cache \<times> (jsstring \<times> jsstring) list)" where
  "scrape_and_store run t_set cache carrier trackingNumber =
     (case run carrier trackingNumber of
        Inl err \<Rightarrow>
          Inr (Response 500 (LegacyFailed (message_or err (js ''Tracking failed''))),
               cache, [(carrier, trackingNumber)])
      | Inr result \<Rightarrow>
          Inr (Response 200 (LegacyTracking carrier trackingNumber result False),
               setInCache (cacheKey carrier trackingNumber) result t_set cache,
               [(carrier, trackingNumber)]))"

text \<open>
  The handler. The cache is read at time \<open>t_get\<close> and written, after the scrape, at
  time \<open>t_set\<close>. The first line of the handler is outside any \<open>try\<close>: what
  \<open>toString\<close> throws leaves the handler (\<open>Inl\<close>).
\<close>

definition track_carrier ::
  "legacy_run \<Rightarrow> int \<Rightarrow> int \<Rightarrow> legacy_value cache \<Rightarrow>
   jsstring \<Rightarrow> jsval \<Rightarrow> exn + (response \<times> legacy_value cache \<times> (jsstring \<times> jsstring) list)" where
  "track_carrier run t_get t_set cache carrier number =
     (case toString (js_or number (JString [])) of
        Inl e \<Rightarrow> Inl e
      | Inr str \<Rightarrow>
          (let trackingNumber = trim str in
           if \<not> scrapers_has carrier
             then Inr (Response 404 (LegacyFailed (unsupported_message carrier)), cache, [])
           else if trackingNumber = []
             then Inr (Response 400 (LegacyFailed missing_number), cache, [])
           else
             (case getFromCache (cacheKey carrier trackingNumber) t_get cache of
                (Some cached, cache') \<Rightarrow>
                  (case cached of
                     Builtin False \<Rightarrow> scrape_and_store run t_set cache' carrier trackingNumber
                   | _ \<Rightarrow>
                     Inr (Response 200 (LegacyTracking carrier trackingNumber cached True),
                          cache', []))
              | (None, cache') \<Rightarrow> scrape_and_store run t_set cache' carrier trackingNumber)))"


section \<open>Evaluation and helper facts\<close>

lemma js_simps: "js [] = []" "js (c # s) = of_char c # js s"
  by (simp_all add: js_def)

lemmas url_defs = switch_link_def template_def dhl_url_def fedex_url_def ups_url_def
  delta_url_def expeditors_url_def

lemmas enc_defs = unreserved_def high_surrogate_def low_surrogate_def escape_def utf8_def
  percent_def hex_digit_def pair_code_point_def


lemma starts_with_includes: "starts_with ic p s \<Longrightarrow> str_includes ic p s"
  by (cases s) simp_all


subsection \<open>officialLink\<close>


lemma switch_link_unsupported: "c \<notin> set carrier_ids \<Longrightarrow> switch_link c code = Inr None"
  by (simp add: carrier_ids_def switch_link_def)

lemma template_nonempty: "template pre code post = Inr (Some url) \<Longrightarrow> pre \<noteq> [] \<Longrightarrow> url \<noteq> []"
  by (auto simp: template_def js_def split: sum.splits)

lemma switch_link_nonempty: "switch_link c code = Inr (Some url) \<Longrightarrow> url \<noteq> []"
  by (auto simp: switch_link_def dhl_url_def fedex_url_def ups_url_def delta_url_def
      expeditors_url_def js_simps split: if_splits dest: template_nonempty)

lemma officialLink_Some:
  "officialLink carrier code = Inr (Some url) \<Longrightarrow>
   \<exists>c. carrier = JString c \<and> c \<noteq> [] \<and> switch_link (toLowerCase c) code = Inr (Some url)"
  by (cases carrier)
     (auto simp: officialLink_def js_or_def toLowerCase_def switch_link_def js_simps
           split: if_splits)



lemma number_string: "toString (js_or (JString n) (JString [])) = Inr n"
  by (simp add: js_or_def)

lemma officialLink_000_truthy:
  "truthy carrier \<Longrightarrow> officialLink_000 carrier code = officialLink carrier code"
  by (cases carrier) (auto simp: officialLink_def officialLink_000_def js_or_def)

lemma carrier_ids_lower: "cid \<in> set carrier_ids \<Longrightarrow> b \<in> set cid \<Longrightarrow> lower_units b = [b]"
  by (auto simp: carrier_ids_def lower_units_def js_simps)

lemma carrier_ids_nonempty: "cid \<in> set carrier_ids \<Longrightarrow> cid \<noteq> []"
  by (auto simp: carrier_ids_def js_simps)

lemma toLowerCase_variant:
  "list_all2 (\<lambda>a b. a = b \<or> (0x41 \<le> a \<and> a \<le> 0x5A \<and> b = a + 0x20)) x y \<Longrightarrow>
   \<forall>b \<in> set y. lower_units b = [b] \<Longrightarrow> toLowerCase x = y"
proof (induction x y rule: list_all2_induct)
  case Nil
  then show ?case by (simp add: toLowerCase_def)
next
  case (Cons a x b y)
  then have "toLowerCase x = y" by simp
  moreover have "lower_units a = [b]"
    using Cons.hyps(1) Cons.prems by (auto simp: lower_units_def)
  ultimately show ?case by (simp add: toLowerCase_def)
qed

lemma officialLink_string: "x \<noteq> [] \<Longrightarrow> officialLink (JString x) code = switch_link (toLowerCase x) code"
  by (simp add: officialLink_def js_or_def)

lemma officialLink_dhl_example:
  "officialLink (JString (js ''dhl'')) (JString (js ''1234567890''))
     = Inr (Some (js ''https://www.dhl.com/mx-es/home/rastreo.html?tracking-id=1234567890''))"
  by (simp add: officialLink_def js_or_def toLowerCase_def lower_units_def
      url_defs encodeURIComponent_def enc_defs js_simps)

subsection \<open>Matching\<close>

lemmas re_defs = statusCandidates_def etaRegexes_def
  spaces_def colon_or_dash_def digits_0_9_def numeric_date_def adjective_def spanish_letters_def
  english_letters_def test_def match_def consumed_def run_length_def cls_match_def
  char_eq_def canonicalize_def case_variants_def is_space_def is_digit_def a_acute_def

lemma eta_loop_first:
  "\<forall>r \<in> set pre. match True r text = None \<Longrightarrow> match True re text = Some m \<Longrightarrow>
   eta_loop (pre @ re # post) text = last m"
  by (induction pre) simp_all

lemma eta_loop_no_match:
  "\<forall>r \<in> set res. match True r text = None \<Longrightarrow> eta_loop res text = None"
  by (induction res) simp_all

lemma last_match_array:
  "search ic r s = Some (whole, caps) \<Longrightarrow>
   match ic r s = Some (Some whole # map caps [1 ..< Suc (ngroups r)])
   \<and> (0 < ngroups r \<longrightarrow> last (Some whole # map caps [1 ..< Suc (ngroups r)]) = caps (ngroups r))"
  by (cases "ngroups r") (simp_all add: match_def last_map)

lemma etaText_eq: "etaText (extractStatusAndEta bigText) = eta_loop etaRegexes (trim (collapse is_space bigText))"
  by (simp add: extractStatusAndEta_def Let_def)

lemma ngroups_eta: "map ngroups etaRegexes = [2, 3, 2, 2]"
  by (simp add: etaRegexes_def spaces_def colon_or_dash_def digits_0_9_def numeric_date_def adjective_def)

lemma normalized_example_es: "trim (collapse is_space (js ''Entrega estimada: 27/08/2025'')) = js ''Entrega estimada: 27/08/2025''"
  by (simp add: trim_def is_space_def js_simps)

lemma normalized_example_en: "trim (collapse is_space (js ''Estimated delivery: August 27, 2025'')) = js ''Estimated delivery: August 27, 2025''"
  by (simp add: trim_def is_space_def js_simps)

lemma eta_example_es:
  "eta_loop etaRegexes (js ''Entrega estimada: 27/08/2025'') = Some (js ''27/08/2025'')"
  by (simp add: re_defs js_simps)

lemma eta_example_en:
  "eta_loop etaRegexes (js ''Estimated delivery: August 27, 2025'') = Some (js ''August 27, 2025'')"
  by (simp add: re_defs js_simps)

lemma eta_example_groups:
  "match True (etaRegexes ! 0) (js ''Entrega estimada: 27/08/2025'')
   = Some [Some (js ''Entrega estimada: 27/08/2025''), Some (js ''estimada''), Some (js ''27/08/2025'')]"
  by (simp add: re_defs js_simps)

lemma search_skip:
  "\<forall>i < length pre. rmatch ic r (drop i (pre @ s), Map.empty) = [] \<Longrightarrow>
   search ic r (pre @ s) = search ic r s"
proof (induction pre)
  case Nil
  then show ?case by simp
next
  case (Cons c pre)
  from Cons.prems have "rmatch ic r (c # pre @ s, Map.empty) = []"
    by force
  moreover have "\<forall>i < length pre. rmatch ic r (drop i (pre @ s), Map.empty) = []"
  proof (intro allI impI)
    fix i assume "i < length pre"
    then have "Suc i < length (c # pre)" by simp
    with Cons.prems have "rmatch ic r (drop (Suc i) ((c # pre) @ s), Map.empty) = []"
      by blast
    then show "rmatch ic r (drop i (pre @ s), Map.empty) = []" by simp
  qed
  ultimately show ?case
    using Cons.IH by simp
qed

lemma search_es_at:
  "search True (etaRegexes ! 0) (js ''Entrega estimada: 27/08/2025'' @ post)
     = Some (js ''Entrega estimada: 27/08/2025'',
             [1 \<mapsto> js ''estimada'', 2 \<mapsto> js ''27/08/2025''])"
  by (simp add: re_defs js_simps)

lemma search_en_at:
  "search True (etaRegexes ! 2) (js ''Estimated delivery: August 27, 2025'' @ post)
     = Some (js ''Estimated delivery: August 27, 2025'',
             [1 \<mapsto> js ''Estimated'', 2 \<mapsto> js ''August 27, 2025''])"
  by (simp add: re_defs js_simps)

lemma etaRegexes_nth:
  "etaRegexes = [etaRegexes ! 0, etaRegexes ! 1, etaRegexes ! 2, etaRegexes ! 3]"
  by (simp add: etaRegexes_def)

lemma ngroups_nth: "ngroups (etaRegexes ! 0) = 2" "ngroups (etaRegexes ! 2) = 2"
  by (simp_all add: etaRegexes_def spaces_def colon_or_dash_def digits_0_9_def numeric_date_def
      adjective_def)

lemma all_less_4: "(\<forall>i < (4::nat). P i) \<longleftrightarrow> P 0 \<and> P 1 \<and> P 2 \<and> P 3"
proof -
  have "{..< (4::nat)} = {0, 1, 2, 3}" by auto
  then show ?thesis
    by (metis (no_types, lifting) insert_iff lessThan_iff singletonD)
qed

lemma eta_es_first:
  assumes "\<forall>i < length pre.
      rmatch True (etaRegexes ! 0)
        (drop i (pre @ js ''Entrega estimada: 27/08/2025'' @ post), Map.empty) = []"
  shows "eta_loop etaRegexes (pre @ js ''Entrega estimada: 27/08/2025'' @ post)
     = Some (js ''27/08/2025'')"
proof -
  let ?text = "pre @ js ''Entrega estimada: 27/08/2025'' @ post"
  have "search True (etaRegexes ! 0) ?text
      = Some (js ''Entrega estimada: 27/08/2025'',
              [1 \<mapsto> js ''estimada'', 2 \<mapsto> js ''27/08/2025''])"
    using search_skip [OF assms] search_es_at by simp
  then have "match True (etaRegexes ! 0) ?text
      = Some [Some (js ''Entrega estimada: 27/08/2025''), Some (js ''estimada''),
              Some (js ''27/08/2025'')]"
    by (simp add: match_def ngroups_nth upt_rec)
  then have "eta_loop [etaRegexes ! 0, etaRegexes ! 1, etaRegexes ! 2, etaRegexes ! 3] ?text
      = Some (js ''27/08/2025'')"
    by simp
  then show ?thesis
    by (metis etaRegexes_nth)
qed

lemma eta_en_first:
  assumes "match True (etaRegexes ! 0) (pre @ js ''Estimated delivery: August 27, 2025'' @ post) = None"
    and "match True (etaRegexes ! 1) (pre @ js ''Estimated delivery: August 27, 2025'' @ post) = None"
    and "\<forall>i < length pre.
      rmatch True (etaRegexes ! 2)
        (drop i (pre @ js ''Estimated delivery: August 27, 2025'' @ post), Map.empty) = []"
  shows "eta_loop etaRegexes (pre @ js ''Estimated delivery: August 27, 2025'' @ post)
     = Some (js ''August 27, 2025'')"
proof -
  let ?text = "pre @ js ''Estimated delivery: August 27, 2025'' @ post"
  have "search True (etaRegexes ! 2) ?text
      = Some (js ''Estimated delivery: August 27, 2025'',
              [1 \<mapsto> js ''Estimated'', 2 \<mapsto> js ''August 27, 2025''])"
    using search_skip [OF assms(3)] search_en_at by simp
  then have "match True (etaRegexes ! 2) ?text
      = Some [Some (js ''Estimated delivery: August 27, 2025''), Some (js ''Estimated''),
              Some (js ''August 27, 2025'')]"
    by (simp add: match_def ngroups_nth upt_rec)
  with assms(1,2)
  have "eta_loop [etaRegexes ! 0, etaRegexes ! 1, etaRegexes ! 2, etaRegexes ! 3] ?text
      = Some (js ''August 27, 2025'')"
    by simp
  then show ?thesis
    by (metis etaRegexes_nth)
qed

subsection \<open>Status keywords\<close>

lemma starts_with_length: "starts_with ic p s \<Longrightarrow> length p \<le> length s"
  by (induction ic p s rule: starts_with.induct) simp_all

lemma starts_with_take: "starts_with ic p s \<Longrightarrow> list_all2 (char_eq ic) p (take (length p) s)"
  by (induction ic p s rule: starts_with.induct) simp_all

lemma starts_with_take_self: "starts_with False (take n s) s"
  by (induction s arbitrary: n) (auto simp: take_Cons char_eq_def split: nat.splits)

lemma consumed_drop: "n \<le> length s \<Longrightarrow> consumed s (drop n s) = take n s"
  by (simp add: consumed_def)

lemma search_Lit_found:
  "str_includes ic p s \<Longrightarrow>
   \<exists>w. search ic (Lit p) s = Some (w, Map.empty) \<and> list_all2 (char_eq ic) p w
       \<and> str_includes False w s"
proof (induction s)
  case Nil
  then show ?case by (cases p) simp_all
next
  case (Cons c cs)
  show ?case
  proof (cases "starts_with ic p (c # cs)")
    case True
    then have "search ic (Lit p) (c # cs) = Some (take (length p) (c # cs), Map.empty)"
      using starts_with_length [OF True] by (simp add: consumed_drop del: drop_Suc_Cons take_Suc_Cons)
    moreover have "str_includes False (take (length p) (c # cs)) (c # cs)"
      by (rule starts_with_includes) (rule starts_with_take_self)
    ultimately show ?thesis
      using starts_with_take [OF True] by blast
  next
    case False
    with Cons show ?thesis by auto
  qed
qed

lemma search_Lit_none: "\<not> str_includes ic p s \<Longrightarrow> search ic (Lit p) s = None"
  by (induction s) simp_all

lemma test_Lit: "test ic (Lit p) s = str_includes ic p s"
proof (cases "str_includes ic p s")
  case True
  then show ?thesis
    using search_Lit_found [of ic p s] by (auto simp: test_def)
next
  case False
  then show ?thesis
    by (simp add: test_def search_Lit_none)
qed

lemma match_Lit: "search ic (Lit p) s = Some (w, caps) \<Longrightarrow> match ic (Lit p) s = Some [Some w]"
  by (simp add: match_def)

lemma find_first:
  "\<forall>r \<in> set pre. \<not> P r \<Longrightarrow> P x \<Longrightarrow> List.find P (pre @ x # post) = Some x"
  by (induction pre) simp_all

lemma find_none: "\<forall>r \<in> set xs. \<not> P r \<Longrightarrow> List.find P xs = None"
  by (induction xs) simp_all

lemma find_status_first:
  assumes "\<forall>r \<in> set pre. \<not> test True r text" and "str_includes True p text"
  shows "\<exists>w. find_status (pre @ Lit p # post) text = Some w
             \<and> list_all2 (char_eq True) p w \<and> str_includes False w text"
proof -
  from assms(2) obtain w where w: "search True (Lit p) text = Some (w, Map.empty)"
      "list_all2 (char_eq True) p w" "str_includes False w text"
    using search_Lit_found by blast
  have "List.find (\<lambda>re. test True re text) (pre @ Lit p # post) = Some (Lit p)"
    using assms by (simp add: find_first test_Lit)
  with w show ?thesis
    by (simp add: find_status_def match_Lit)
qed

lemma find_status_none:
  "\<forall>r \<in> set cands. \<not> test True r text \<Longrightarrow> find_status cands text = None"
  by (simp add: find_status_def find_none)

lemma status_eq: "status (extractStatusAndEta bigText) = find_status statusCandidates (trim (collapse is_space bigText))"
  by (simp add: extractStatusAndEta_def Let_def)

lemma candidates_entregado: "statusCandidates = [] @ Lit (js ''entregado'') # tl statusCandidates"
  by (simp add: statusCandidates_def)

lemma candidates_in_transit:
  "statusCandidates = take 8 statusCandidates @ Lit (js ''in transit'') # drop 9 statusCandidates"
  by (simp add: statusCandidates_def)

lemma extractStatus_first:
  "\<forall>q \<in> set pre. \<not> str_includes True q text \<Longrightarrow> str_includes True p text \<Longrightarrow>
   statuses = pre @ p # post \<Longrightarrow> extractStatus text = Some p"
  using find_first [of pre "\<lambda>status. str_includes True status text" p post]
  by (simp add: extractStatus_def test_Lit)

lemma extractStatus_none:
  "\<forall>q \<in> set statuses. \<not> str_includes True q text \<Longrightarrow> extractStatus text = None"
  by (simp add: extractStatus_def find_none test_Lit)

subsection \<open>The steps of sanitize\<close>

lemma collapse_not_P_hd: "\<not> P d \<Longrightarrow> collapse P (d # s) = d # collapse P s"
  by simp

lemma squeezed_Cons_not: "\<not> P c \<Longrightarrow> squeezed P (c # s) = squeezed P s"
  by (cases s) simp_all

lemma squeezed_collapse: "squeezed P (collapse P s)"
proof (induction P s rule: collapse.induct)
  case (1 P)
  then show ?case by simp
next
  case (2 P c cs)
  show ?case
  proof (cases "P c")
    case True
    with 2 have ih: "squeezed P (collapse P (dropWhile P cs))" by simp
    from True have e: "collapse P (c # cs) = 0x20 # collapse P (dropWhile P cs)"
      by simp
    show ?thesis
    proof (cases "dropWhile P cs")
      case Nil
      then have "collapse P (c # cs) = [0x20]"
        by (simp only: e collapse.simps(1))
      then show ?thesis by simp
    next
      case (Cons d ds)
      then have "\<not> P d"
        using hd_dropWhile [of P cs] by auto
      then have "collapse P (d # ds) = d # collapse P ds"
        by simp
      with ih Cons \<open>\<not> P d\<close> show ?thesis
        by (simp only: e) simp
    qed
  next
    case False
    with 2 show ?thesis by (simp add: squeezed_Cons_not)
  qed
qed

lemma collapse_squeezed: "squeezed P s \<Longrightarrow> collapse P s = s"
  by (induction P s rule: squeezed.induct) auto

lemma squeezed_tl: "squeezed P (c # s) \<Longrightarrow> squeezed P s"
  by (cases s) simp_all

lemma squeezed_append_right: "squeezed P (a @ b) \<Longrightarrow> squeezed P b"
  by (induction a) (auto dest: squeezed_tl)

lemma squeezed_append_left: "squeezed P (a @ b) \<Longrightarrow> squeezed P a"
proof (induction P a rule: squeezed.induct)
  case (1 P)
  then show ?case by simp
next
  case (2 P c)
  then show ?case by (cases b) auto
next
  case (3 P c d s)
  then show ?case by auto
qed

lemma trim_infix: "\<exists>a b. s = a @ trim s @ b"
proof -
  let ?u = "dropWhile is_space s"
  have "rev ?u = takeWhile is_space (rev ?u) @ dropWhile is_space (rev ?u)"
    by simp
  then have "?u = rev (dropWhile is_space (rev ?u)) @ rev (takeWhile is_space (rev ?u))"
    by (metis rev_append rev_rev_ident)
  then have "s = takeWhile is_space s @ trim s @ rev (takeWhile is_space (rev ?u))"
    by (metis takeWhile_dropWhile_id trim_def)
  then show ?thesis by blast
qed

lemma trim_idem: "trim (trim s) = trim s"
proof -
  let ?u = "dropWhile is_space s"
  let ?w = "dropWhile is_space (rev ?u)"
  have a: "dropWhile is_space (rev ?w) = rev ?w"
  proof (cases "?w = []")
    case True
    show ?thesis by (simp only: True rev.simps dropWhile.simps)
  next
    case False
    then have "?u \<noteq> []"
      by (metis dropWhile.simps(1) rev.simps(1))
    then have h: "\<not> is_space (hd ?u)"
      by (rule hd_dropWhile)
    have "rev ?u = takeWhile is_space (rev ?u) @ ?w" by simp
    then have "last (rev ?u) = last ?w"
      using False by (metis last_appendR)
    then have "hd (rev ?w) = hd ?u"
      using False \<open>?u \<noteq> []\<close> by (simp add: hd_rev last_rev)
    with h False show ?thesis
      by (cases "rev ?w") auto
  qed
  have "trim (trim s) = rev (dropWhile is_space (rev (dropWhile is_space (rev ?w))))"
    by (simp add: trim_def)
  also have "\<dots> = rev (dropWhile is_space ?w)"
    by (simp add: a)
  also have "\<dots> = rev ?w"
    by (simp add: dropWhile_idem)
  finally show ?thesis by (simp add: trim_def)
qed

lemma remove_all_absent: "\<not> str_includes ic p s \<Longrightarrow> remove_all ic p s = s"
  by (induction ic p s rule: remove_all.induct) auto

lemma starts_with_append_right: "starts_with ic p s \<Longrightarrow> starts_with ic p (s @ b)"
  by (induction ic p s rule: starts_with.induct) simp_all

lemma str_includes_append_right: "str_includes ic p s \<Longrightarrow> str_includes ic p (s @ b)"
proof (induction s)
  case Nil
  then show ?case by (cases p; cases b) simp_all
next
  case (Cons c cs)
  then show ?case by (auto dest: starts_with_append_right [where b = b])
qed

lemma str_includes_Cons: "str_includes ic p s \<Longrightarrow> str_includes ic p (c # s)"
  by simp

lemma str_includes_append_left: "str_includes ic p s \<Longrightarrow> str_includes ic p (a @ s)"
  by (induction a) simp_all

lemma str_includes_infix: "str_includes ic p m \<Longrightarrow> str_includes ic p (a @ m @ b)"
  by (simp add: str_includes_append_left str_includes_append_right)

lemma replace_nbsp_none: "nbsp \<notin> set (replace_nbsp s)"
  by (auto simp: replace_nbsp_def nbsp_def)

lemma replace_nbsp_id: "nbsp \<notin> set s \<Longrightarrow> replace_nbsp s = s"
  by (induction s) (auto simp: replace_nbsp_def)

lemma set_collapse: "set (collapse P s) \<subseteq> insert 0x20 (set s)"
proof (induction P s rule: collapse.induct)
  case (1 P)
  then show ?case by simp
next
  case (2 P c cs)
  then show ?case
    using set_dropWhileD [of _ P cs] by (cases "P c") auto
qed

lemma length_collapse_le: "length (collapse P s) \<le> length s"
proof (induction P s rule: collapse.induct)
  case (1 P)
  then show ?case by simp
next
  case (2 P c cs)
  show ?case
  proof (cases "P c")
    case True
    with 2 have "length (collapse P (dropWhile P cs)) \<le> length (dropWhile P cs)" by simp
    also have "\<dots> \<le> length cs" by (rule length_dropWhile_le)
    finally show ?thesis using True by simp
  next
    case False
    with 2 show ?thesis by simp
  qed
qed

lemma length_remove_all_le: "length (remove_all ic p s) \<le> length s"
proof (induction ic p s rule: remove_all.induct)
  case (1 ic p)
  then show ?case by simp
next
  case (2 ic p c cs)
  show ?case
  proof (cases "p \<noteq> [] \<and> starts_with ic p (c # cs)")
    case True
    with 2 have "length (remove_all ic p (drop (length p) (c # cs))) \<le> length (drop (length p) (c # cs))"
      by simp
    also have "\<dots> \<le> length (c # cs)" by simp
    finally show ?thesis using True by (simp del: drop_Suc_Cons)
  next
    case False
    with 2 have "length (remove_all ic p cs) \<le> length cs" by simp
    with False show ?thesis by auto
  qed
qed

lemma length_remove_all_less:
  "p \<noteq> [] \<Longrightarrow> str_includes ic p s \<Longrightarrow> length (remove_all ic p s) < length s"
proof (induction s)
  case Nil
  then show ?case by (cases p) simp_all
next
  case (Cons c cs)
  show ?case
  proof (cases "starts_with ic p (c # cs)")
    case True
    have "length (remove_all ic p (drop (length p) (c # cs))) \<le> length (drop (length p) (c # cs))"
      by (rule length_remove_all_le)
    also have "\<dots> < length (c # cs)"
      using Cons.prems(1) by (cases p) simp_all
    finally show ?thesis
      using True Cons.prems(1) by (simp del: drop_Suc_Cons)
  next
    case False
    with Cons have "length (remove_all ic p cs) < length cs" by simp
    with False show ?thesis by simp
  qed
qed

lemma length_trim_le: "length (trim s) \<le> length s"
proof -
  have "length (trim s) \<le> length (dropWhile is_space s)"
    by (simp add: trim_def) (metis length_dropWhile_le length_rev)
  also have "\<dots> \<le> length s" by (rule length_dropWhile_le)
  finally show ?thesis .
qed

lemma trim_same_length: "length (trim s) = length s \<Longrightarrow> trim s = s"
proof -
  assume l: "length (trim s) = length s"
  obtain a b where ab: "s = a @ trim s @ b"
    using trim_infix by blast
  then have "length s = length a + length (trim s) + length b"
    by (metis length_append add.assoc)
  with l have "a = [] \<and> b = []" by simp
  with ab show ?thesis by simp
qed

lemma set_remove_all: "set (remove_all ic p s) \<subseteq> set s"
proof (induction ic p s rule: remove_all.induct)
  case (1 ic p)
  then show ?case by simp
next
  case (2 ic p c cs)
  show ?case
  proof (cases "p \<noteq> [] \<and> starts_with ic p (c # cs)")
    case True
    with 2 have "set (remove_all ic p (drop (length p) (c # cs))) \<subseteq> set (drop (length p) (c # cs))"
      by simp
    also have "\<dots> \<subseteq> set (c # cs)" by (rule set_drop_subset)
    finally show ?thesis using True by (simp del: drop_Suc_Cons)
  next
    case False
    with 2 have "set (remove_all ic p cs) \<subseteq> set cs" by simp
    with False show ?thesis by auto
  qed
qed

lemma set_trim: "set (trim s) \<subseteq> set s"
  using trim_infix [of s] by (metis Un_upper1 Un_upper2 set_append subset_trans)

lemma sanitize_no_nbsp: "nbsp \<notin> set (sanitize x)"
proof -
  have "nbsp \<notin> set (collapse space_or_tab (replace_nbsp x))"
    using set_collapse [of space_or_tab "replace_nbsp x"] replace_nbsp_none [of x]
    by (auto simp: nbsp_def)
  then show ?thesis
    using set_trim set_remove_all unfolding sanitize_def by blast
qed

lemma skip_nonempty: "skip_en \<noteq> []" "skip_es \<noteq> []"
  by (simp_all add: skip_en_def skip_es_def js_simps)

text \<open>
  A second pass of \<open>sanitize\<close> finds no non-breaking space, and its result is trimmed
  already.
\<close>

lemma sanitize_again:
  "sanitize (sanitize x)
     = trim (remove_all True skip_es (remove_all True skip_en
         (collapse space_or_tab (sanitize x))))"
proof -
  have "replace_nbsp (sanitize x) = sanitize x"
    using sanitize_no_nbsp by (rule replace_nbsp_id)
  then show ?thesis
    by (simp add: sanitize_def)
qed

lemma trim_sanitize: "trim (sanitize x) = sanitize x"
  by (simp add: sanitize_def trim_idem)

text \<open>
  No step of \<open>sanitize\<close> lengthens its argument, and a stripping step that finds its
  phrase shortens it. So a second pass that returns its argument changed nothing at any
  step.
\<close>

lemma sanitize_fixed_point:
  "sanitize (sanitize x) = sanitize x \<longleftrightarrow>
     collapse space_or_tab (sanitize x) = sanitize x
     \<and> \<not> str_includes True skip_en (sanitize x)
     \<and> \<not> str_includes True skip_es (sanitize x)"
proof
  assume "collapse space_or_tab (sanitize x) = sanitize x
     \<and> \<not> str_includes True skip_en (sanitize x)
     \<and> \<not> str_includes True skip_es (sanitize x)"
  then show "sanitize (sanitize x) = sanitize x"
    by (simp add: sanitize_again remove_all_absent trim_sanitize)
next
  let ?y = "sanitize x"
  let ?u = "collapse space_or_tab ?y"
  let ?v = "remove_all True skip_en ?u"
  let ?w = "remove_all True skip_es ?v"
  assume fixed: "sanitize ?y = ?y"
  then have y: "trim ?w = ?y"
    by (simp add: sanitize_again)
  have "length (trim ?w) \<le> length ?w" by (rule length_trim_le)
  moreover have "length ?w \<le> length ?v" by (rule length_remove_all_le)
  moreover have "length ?v \<le> length ?u" by (rule length_remove_all_le)
  moreover have "length ?u \<le> length ?y" by (rule length_collapse_le)
  ultimately have l: "length ?v = length ?u" "length ?w = length ?v" "length (trim ?w) = length ?w"
    "length ?u = length ?y"
    using y by simp_all
  have en: "\<not> str_includes True skip_en ?u"
    using length_remove_all_less [OF skip_nonempty(1), of True ?u] l(1) by auto
  then have v: "?v = ?u"
    by (rule remove_all_absent)
  have es: "\<not> str_includes True skip_es ?u"
    using length_remove_all_less [OF skip_nonempty(2), of True ?v] l(2) v by auto
  then have w: "?w = ?u"
    using v remove_all_absent by simp
  have "trim ?w = ?w"
    using l(3) by (rule trim_same_length)
  with y w have "?u = ?y" by simp
  with en es show "collapse space_or_tab ?y = ?y
     \<and> \<not> str_includes True skip_en ?y \<and> \<not> str_includes True skip_es ?y"
    by simp
qed

text \<open>When the stripping steps cut nothing, the first pass leaves a clean text.\<close>

lemma sanitize_no_phrase:
  assumes "\<not> str_includes True skip_en (collapse space_or_tab (replace_nbsp x))"
    and "\<not> str_includes True skip_es (collapse space_or_tab (replace_nbsp x))"
  shows "sanitize (sanitize x) = sanitize x"
proof -
  let ?t = "collapse space_or_tab (replace_nbsp x)"
  have first: "sanitize x = trim ?t"
    using assms by (simp add: sanitize_def remove_all_absent)
  obtain a b where ab: "?t = a @ trim ?t @ b"
    using trim_infix by blast
  have "squeezed space_or_tab ?t"
    by (rule squeezed_collapse)
  then have "squeezed space_or_tab (trim ?t)"
    using ab by (metis squeezed_append_left squeezed_append_right)
  then have c: "collapse space_or_tab (trim ?t) = trim ?t"
    by (rule collapse_squeezed)
  have en: "\<not> str_includes True skip_en (trim ?t)"
    using assms(1) ab str_includes_infix by metis
  have es: "\<not> str_includes True skip_es (trim ?t)"
    using assms(2) ab str_includes_infix by metis
  have "collapse space_or_tab (sanitize x) = sanitize x
     \<and> \<not> str_includes True skip_en (sanitize x)
     \<and> \<not> str_includes True skip_es (sanitize x)"
    using c en es by (simp add: first)
  then show ?thesis
    using sanitize_fixed_point by blast
qed

text \<open>
  The result of \<open>sanitize\<close> holds no tab, so the collapsing step leaves it alone
  exactly when it holds no two spaces side by side.
\<close>

lemma squeezed_no_tab: "squeezed space_or_tab s \<Longrightarrow> 0x09 \<notin> set s"
  by (induction space_or_tab s rule: squeezed.induct) (auto simp: space_or_tab_def)

lemma squeezed_iff_no_double_space:
  "0x09 \<notin> set s \<Longrightarrow>
   squeezed space_or_tab s \<longleftrightarrow> \<not> str_includes False [0x20, 0x20] s"
  by (induction space_or_tab s rule: squeezed.induct)
     (auto simp: space_or_tab_def char_eq_def)

lemma sanitize_no_tab: "0x09 \<notin> set (sanitize x)"
proof -
  have "squeezed space_or_tab (collapse space_or_tab (replace_nbsp x))"
    by (rule squeezed_collapse)
  then have "0x09 \<notin> set (collapse space_or_tab (replace_nbsp x))"
    by (rule squeezed_no_tab)
  then show ?thesis
    using set_trim set_remove_all unfolding sanitize_def by blast
qed

lemma collapse_fixed_iff: "collapse P s = s \<longleftrightarrow> squeezed P s"
  using collapse_squeezed [of P s] squeezed_collapse [of P s] by auto

lemma sanitize_collapse_fixed:
  "collapse space_or_tab (sanitize x) = sanitize x
     \<longleftrightarrow> \<not> str_includes False [0x20, 0x20] (sanitize x)"
  using squeezed_iff_no_double_space [OF sanitize_no_tab] by (simp add: collapse_fixed_iff)

subsection \<open>Keywords survive the clean-up of part\_000\<close>

lemma collapse_solid_prefix:
  "squeezed P w \<Longrightarrow> w \<noteq> [] \<Longrightarrow> \<not> P (last w) \<Longrightarrow> collapse P (w @ b) = w @ collapse P b"
  by (induction P w rule: squeezed.induct) auto

lemma dropWhile_keeps_infix:
  assumes "w \<noteq> []" and "\<not> P (hd w)"
  shows "\<exists>a'. dropWhile P (a @ w @ b) = a' @ w @ b"
proof (cases "\<forall>x \<in> set a. P x")
  case True
  then have "dropWhile P (a @ w @ b) = dropWhile P (w @ b)"
    by (simp add: dropWhile_append2)
  also have "\<dots> = w @ b"
    using assms by (cases w) simp_all
  finally show ?thesis by simp
next
  case False
  then obtain x where "x \<in> set a" "\<not> P x" by blast
  then have "dropWhile P (a @ w @ b) = dropWhile P a @ w @ b"
    by (rule dropWhile_append1)
  then show ?thesis by blast
qed

lemma collapse_keeps_infix:
  assumes "squeezed P w" and "w \<noteq> []" and "\<not> P (hd w)" and "\<not> P (last w)"
  shows "\<exists>a' b'. collapse P (a @ w @ b) = a' @ w @ b'"
proof (induction "length a" arbitrary: a rule: less_induct)
  case less
  show ?case
  proof (cases a)
    case Nil
    then show ?thesis
      using collapse_solid_prefix [OF assms(1,2,4)] by (metis append_Nil)
  next
    case (Cons c cs)
    show ?thesis
    proof (cases "P c")
      case False
      from less [of cs] Cons obtain a' b' where "collapse P (cs @ w @ b) = a' @ w @ b'"
        by auto
      with False Cons have "collapse P (a @ w @ b) = (c # a') @ w @ b'"
        by simp
      then show ?thesis by blast
    next
      case True
      obtain a1 where a1: "dropWhile P (cs @ w @ b) = a1 @ w @ b"
          and len: "length a1 \<le> length cs"
      proof (cases "\<forall>x \<in> set cs. P x")
        case True
        then have "dropWhile P (cs @ w @ b) = dropWhile P (w @ b)"
          by (simp add: dropWhile_append2)
        also have "\<dots> = w @ b"
          using assms by (cases w) simp_all
        finally have "dropWhile P (cs @ w @ b) = [] @ w @ b" by simp
        then show ?thesis using that [of "[]"] by simp
      next
        case False
        then obtain x where "x \<in> set cs" "\<not> P x" by blast
        then have "dropWhile P (cs @ w @ b) = dropWhile P cs @ w @ b"
          by (rule dropWhile_append1)
        then show ?thesis
          using that [of "dropWhile P cs"] by (simp add: length_dropWhile_le)
      qed
      from less [of a1] len Cons obtain a' b' where "collapse P (a1 @ w @ b) = a' @ w @ b'"
        by auto
      with True Cons a1 have "collapse P (a @ w @ b) = (0x20 # a') @ w @ b'"
        by simp
      then show ?thesis by blast
    qed
  qed
qed

lemma trim_keeps_infix:
  assumes "w \<noteq> []" and "\<not> is_space (hd w)" and "\<not> is_space (last w)"
  shows "\<exists>a' b'. trim (a @ w @ b) = a' @ w @ b'"
proof -
  obtain a1 where a1: "dropWhile is_space (a @ w @ b) = a1 @ w @ b"
    using dropWhile_keeps_infix [of w is_space a b] assms by blast
  have "rev w \<noteq> []" and "\<not> is_space (hd (rev w))"
    using assms by (simp_all add: hd_rev)
  then obtain b1 where "dropWhile is_space (rev b @ rev w @ rev a1) = b1 @ rev w @ rev a1"
    using dropWhile_keeps_infix [of "rev w" is_space "rev b" "rev a1"] by blast
  with a1 have "trim (a @ w @ b) = a1 @ w @ rev b1"
    by (simp add: trim_def)
  then show ?thesis by blast
qed

lemma includes_occurrence:
  "str_includes ic p s \<Longrightarrow> \<exists>a w b. s = a @ w @ b \<and> list_all2 (char_eq ic) p w"
proof (induction s)
  case Nil
  then show ?case by (cases p) simp_all
next
  case (Cons c cs)
  show ?case
  proof (cases "starts_with ic p (c # cs)")
    case True
    have "c # cs = [] @ take (length p) (c # cs) @ drop (length p) (c # cs)"
      by simp
    then show ?thesis
      using starts_with_take [OF True] by blast
  next
    case False
    with Cons obtain a w b where "cs = a @ w @ b" "list_all2 (char_eq ic) p w"
      by auto
    then have "c # cs = (c # a) @ w @ b" by simp
    then show ?thesis
      using \<open>list_all2 (char_eq ic) p w\<close> by blast
  qed
qed

lemma occurrence_starts_with: "list_all2 (char_eq ic) p w \<Longrightarrow> starts_with ic p (w @ b)"
  by (induction p w rule: list_all2_induct) simp_all

lemma occurrence_includes: "list_all2 (char_eq ic) p w \<Longrightarrow> str_includes ic p (a @ w @ b)"
  by (simp add: occurrence_starts_with starts_with_includes str_includes_append_left)

lemma canonicalize_space: "is_space (canonicalize c) \<Longrightarrow> canonicalize c = c"
  by (auto simp: canonicalize_def is_space_def split: if_splits)

lemma space_canonical: "is_space c \<Longrightarrow> canonicalize c = c"
  by (auto simp: canonicalize_def is_space_def)

lemma char_eq_space:
  assumes "char_eq True p c"
  shows "is_space c \<longleftrightarrow> is_space p" and "is_space p \<Longrightarrow> c = p"
proof -
  from assms have e: "canonicalize p = canonicalize c"
    by (simp add: char_eq_def)
  show "is_space c \<longleftrightarrow> is_space p"
    using e canonicalize_space [of c] canonicalize_space [of p] space_canonical [of c]
      space_canonical [of p] by metis
  show "is_space p \<Longrightarrow> c = p"
    using e canonicalize_space [of c] space_canonical [of p] by metis
qed

lemma occurrence_squeezed:
  "list_all2 (char_eq True) p w \<Longrightarrow> squeezed is_space p \<Longrightarrow> squeezed is_space w"
proof (induction is_space p arbitrary: w rule: squeezed.induct)
  case 1
  then show ?case by simp
next
  case (2 c)
  then obtain z where w: "w = [z]" and c: "char_eq True c z"
    by (auto simp: list_all2_Cons1)
  have "\<not> is_space z \<or> z = 0x20"
    using 2(2) char_eq_space [OF c] by auto
  with w show ?case by simp
next
  case (3 c d s)
  from 3(2) obtain c' d' s' where w: "w = c' # d' # s'" and c: "char_eq True c c'"
      and d: "char_eq True d d'" and r: "list_all2 (char_eq True) (d # s) (d' # s')"
    by (auto simp: list_all2_Cons1)
  from 3 r have "squeezed is_space (d' # s')" by simp
  moreover have "\<not> is_space c' \<or> (c' = 0x20 \<and> \<not> is_space d')"
    using 3(3) char_eq_space [OF c] char_eq_space [OF d] by auto
  ultimately show ?case
    using w by simp
qed

lemma occurrence_ends:
  assumes "list_all2 (char_eq True) p w" and "p \<noteq> []"
    and "\<not> is_space (hd p)" and "\<not> is_space (last p)"
  shows "w \<noteq> [] \<and> \<not> is_space (hd w) \<and> \<not> is_space (last w)"
proof -
  from assms(1,2) have n: "w \<noteq> []" by auto
  from assms(1,2) n have "char_eq True (hd p) (hd w)"
    by (cases p; cases w) simp_all
  moreover from assms(1,2) n have "char_eq True (last p) (last w)"
    by (simp add: last_conv_nth list_all2_lengthD list_all2_nthD)
  ultimately show ?thesis
    using n assms(3,4) char_eq_space(1) by blast
qed

lemma normalized_includes:
  assumes "str_includes True p bigText" and "p \<noteq> []" and "squeezed is_space p"
    and "\<not> is_space (hd p)" and "\<not> is_space (last p)"
  shows "str_includes True p (trim (collapse is_space bigText))"
proof -
  from assms(1) obtain a w b where s: "bigText = a @ w @ b" and o: "list_all2 (char_eq True) p w"
    using includes_occurrence by blast
  have e: "w \<noteq> [] \<and> \<not> is_space (hd w) \<and> \<not> is_space (last w)"
    using occurrence_ends [OF o assms(2,4,5)] .
  have q: "squeezed is_space w"
    using occurrence_squeezed [OF o assms(3)] .
  obtain a' b' where "collapse is_space (a @ w @ b) = a' @ w @ b'"
    using collapse_keeps_infix [of is_space w a b] q e by blast
  moreover obtain a'' b'' where "trim (a' @ w @ b') = a'' @ w @ b''"
    using trim_keeps_infix [of w a' b'] e by blast
  ultimately have "trim (collapse is_space bigText) = a'' @ w @ b''"
    using s by simp
  then show ?thesis
    using occurrence_includes [OF o] by simp
qed

lemma entregado_normalized:
  "str_includes True (js ''entregado'') bigText \<Longrightarrow>
   str_includes True (js ''entregado'') (trim (collapse is_space bigText))"
  by (rule normalized_includes) (simp_all add: is_space_def js_simps)

lemma in_transit_normalized:
  "str_includes True (js ''in transit'') bigText \<Longrightarrow>
   str_includes True (js ''in transit'') (trim (collapse is_space bigText))"
  by (rule normalized_includes) (simp_all add: is_space_def js_simps)

lemma candidates_solid:
  "\<forall>r \<in> set statusCandidates. \<exists>p. r = Lit p \<and> p \<noteq> [] \<and> squeezed is_space p
      \<and> \<not> is_space (hd p) \<and> \<not> is_space (last p)"
  by (simp add: statusCandidates_def is_space_def a_acute_def js_simps)

lemma candidate_normalized:
  assumes "Lit p \<in> set statusCandidates" and "str_includes True p bigText"
  shows "str_includes True p (trim (collapse is_space bigText))"
proof -
  from assms(1) have "p \<noteq> [] \<and> squeezed is_space p \<and> \<not> is_space (hd p) \<and> \<not> is_space (last p)"
    using candidates_solid by fastforce
  then show ?thesis
    using normalized_includes [OF assms(2)] by blast
qed

lemma candidates_literal: "r \<in> set statusCandidates \<Longrightarrow> \<exists>p. r = Lit p"
  using candidates_solid by blast

lemma find_status_None_iff:
  "find_status statusCandidates text = None
     \<longleftrightarrow> (\<forall>r \<in> set statusCandidates. \<not> test True r text)"
proof
  assume "\<forall>r \<in> set statusCandidates. \<not> test True r text"
  then show "find_status statusCandidates text = None"
    by (rule find_status_none)
next
  assume n: "find_status statusCandidates text = None"
  show "\<forall>r \<in> set statusCandidates. \<not> test True r text"
  proof (rule ccontr)
    assume "\<not> (\<forall>r \<in> set statusCandidates. \<not> test True r text)"
    then have "\<exists>r \<in> set statusCandidates. test True r text" by blast
    then obtain pre r post where split: "statusCandidates = pre @ r # post"
        and r: "test True r text" and pre: "\<forall>q \<in> set pre. \<not> test True q text"
      using split_list_first_prop [of statusCandidates "\<lambda>r. test True r text"] by blast
    from split have "r \<in> set statusCandidates"
      by (metis in_set_conv_decomp)
    then obtain p where p: "r = Lit p"
      using candidates_literal by blast
    with r have "str_includes True p text"
      by (simp add: test_Lit)
    then have "\<exists>w. find_status (pre @ Lit p # post) text = Some w"
      using find_status_first [OF pre] by blast
    with n split p show False
      by (metis option.distinct(1))
  qed
qed

lemma statuses_nonempty: "\<forall>s \<in> set statuses. s \<noteq> []"
  by (simp add: statuses_def js_simps)

lemma latest_status_first:
  assumes "\<forall>q \<in> set pre. \<not> str_includes True q text" and "str_includes True p text"
    and "statuses = pre @ p # post"
  shows "latest_status text = p"
proof -
  have "extractStatus text = Some p"
    using assms by (rule extractStatus_first)
  moreover have "p \<noteq> []"
    using statuses_nonempty assms(3) by (metis in_set_conv_decomp)
  ultimately show ?thesis
    by (simp add: latest_status_def)
qed

text \<open>The two example phrases of the date expressions survive the clean-up as well.\<close>

lemma phrase_normalized:
  assumes "w \<noteq> []" and "squeezed is_space w" and "\<not> is_space (hd w)" and "\<not> is_space (last w)"
  shows "\<exists>a' b'. trim (collapse is_space (a @ w @ b)) = a' @ w @ b'"
proof -
  obtain a1 b1 where "collapse is_space (a @ w @ b) = a1 @ w @ b1"
    using collapse_keeps_infix [of is_space w a b] assms by blast
  moreover obtain a2 b2 where "trim (a1 @ w @ b1) = a2 @ w @ b2"
    using trim_keeps_infix [of w a1 b1] assms by blast
  ultimately show ?thesis by auto
qed

lemma phrase_es_normalized:
  "\<exists>a' b'. trim (collapse is_space (a @ js ''Entrega estimada: 27/08/2025'' @ b))
     = a' @ js ''Entrega estimada: 27/08/2025'' @ b'"
  by (rule phrase_normalized) (simp_all add: is_space_def js_simps)

lemma phrase_en_normalized:
  "\<exists>a' b'. trim (collapse is_space (a @ js ''Estimated delivery: August 27, 2025'' @ b))
     = a' @ js ''Estimated delivery: August 27, 2025'' @ b'"
  by (rule phrase_normalized) (simp_all add: is_space_def js_simps)

subsection \<open>The carrier names of the legacy server\<close>



lemmas sanitize_eval = sanitize_def replace_nbsp_def nbsp_def space_or_tab_def skip_en_def
  skip_es_def trim_def is_space_def char_eq_def canonicalize_def js_simps

section \<open>The claims\<close>

text \<open>
  C5. A value put in the cache is returned by a read of its key at any time before ten
  minutes (600000 ms) have passed since the put, the put's own instant included. Once
  the ten minutes have passed, the read returns a miss and deletes the entry; this holds
  for any entry whose \<open>expires\<close> is not after the time of the read. A read deletes
  nothing under another key, so an expired entry stays until its own key is read.
\<close>

theorem cache_put_then_get:
  "(now \<le> now' \<and> now' < now + CACHE_TTL_MS \<longrightarrow>
      getFromCache key now' (setInCache key v now cache) = (Some v, setInCache key v now cache))
   \<and> (now + CACHE_TTL_MS \<le> now' \<longrightarrow>
      getFromCache key now' (setInCache key v now cache) = (None, cache(key := None)))
   \<and> (cache key = Some e \<and> expires e \<le> now' \<longrightarrow>
      getFromCache key now' cache = (None, cache(key := None)))
   \<and> (k \<noteq> key \<longrightarrow> snd (getFromCache k now' cache) key = cache key)
   \<and> CACHE_TTL_MS = 600000"
  by (auto simp: getFromCache_def setInCache_def CACHE_TTL_MS_def split: option.splits)

theorem cache_put_then_get_witness:
  "getFromCache (js ''dhl:1'') 1000 (setInCache (js ''dhl:1'') (7::nat) 1000 Map.empty)
     = (Some 7, setInCache (js ''dhl:1'') 7 1000 Map.empty)
   \<and> getFromCache (js ''dhl:1'') 601000 (setInCache (js ''dhl:1'') (7::nat) 1000 Map.empty)
     = (None, Map.empty)"
proof -
  have a: "(1000::int) \<le> 1000 \<and> (1000::int) < 1000 + CACHE_TTL_MS"
    by (simp add: CACHE_TTL_MS_def)
  have b: "(1000::int) + CACHE_TTL_MS \<le> 601000"
    by (simp add: CACHE_TTL_MS_def)
  have c: "getFromCache (js ''dhl:1'') 1000 (setInCache (js ''dhl:1'') (7::nat) 1000 Map.empty)
     = (Some 7, setInCache (js ''dhl:1'') 7 1000 Map.empty)"
    using a cache_put_then_get [THEN conjunct1, of 1000 1000 "js ''dhl:1''" "7::nat" Map.empty]
    by (rule rev_mp)
  have d: "getFromCache (js ''dhl:1'') 601000 (setInCache (js ''dhl:1'') (7::nat) 1000 Map.empty)
     = (None, Map.empty(js ''dhl:1'' := None))"
    using b cache_put_then_get [THEN conjunct2, THEN conjunct1,
        of 1000 601000 "js ''dhl:1''" "7::nat" Map.empty]
    by (rule rev_mp)
  from c d show ?thesis by simp
qed

text \<open>
  C7, at the input where the code departs from it. The copy of \<open>officialLink\<close> in app.js
  has no case for the alias \<open>deltacargo\<close>: there the alias resolves to no URL, while the
  copy in server.js resolves it to the Delta Cargo URL.
\<close>

theorem officialLink_app_deltacargo:
  "officialLink_app (JString (js ''deltacargo'')) (JString (js ''00612345675'')) = Inr None
   \<and> officialLink (JString (js ''deltacargo'')) (JString (js ''00612345675''))
       = Inr (Some (js ''https://www.deltacargo.com/Cargo/trackShipment?airbillnumber=00612345675''))"
  by (simp add: officialLink_app_def officialLink_def js_or_def toLowerCase_def lower_units_def
      url_defs encodeURIComponent_def enc_defs js_simps)

text \<open>
  In server.js the resolution is case-insensitive and alias-tolerant: a carrier
  written like one of the carrier ids, with any of its letters in upper case, resolves
  as the id does, and \<open>delta\<close>, \<open>delta-cargo\<close> and \<open>deltacargo\<close> all resolve to the
  Delta Cargo URL of the code.
\<close>

theorem officialLink_case_insensitive:
  "(cid \<in> set carrier_ids
      \<and> list_all2 (\<lambda>a b. a = b \<or> (0x41 \<le> a \<and> a \<le> 0x5A \<and> b = a + 0x20)) x cid \<longrightarrow>
      officialLink (JString x) code = officialLink (JString cid) code)
   \<and> officialLink (JString (js ''delta'')) code = delta_url code
   \<and> officialLink (JString (js ''delta-cargo'')) code = delta_url code
   \<and> officialLink (JString (js ''deltacargo'')) code = delta_url code"
proof (intro conjI impI)
  assume h: "cid \<in> set carrier_ids
      \<and> list_all2 (\<lambda>a b. a = b \<or> (0x41 \<le> a \<and> a \<le> 0x5A \<and> b = a + 0x20)) x cid"
  then have l: "\<forall>b \<in> set cid. lower_units b = [b]"
    using carrier_ids_lower by blast
  from h have n: "cid \<noteq> []"
    using carrier_ids_nonempty by blast
  with h have nx: "x \<noteq> []" by auto
  have "toLowerCase x = cid"
    using h l toLowerCase_variant by blast
  moreover have "toLowerCase cid = cid"
    using l toLowerCase_variant [of cid cid] by (simp add: list_all2_same)
  ultimately show "officialLink (JString x) code = officialLink (JString cid) code"
    using n nx by (simp add: officialLink_string)
next
  show "officialLink (JString (js ''delta'')) code = delta_url code"
    by (simp add: officialLink_def js_or_def toLowerCase_def lower_units_def switch_link_def js_simps)
  show "officialLink (JString (js ''delta-cargo'')) code = delta_url code"
    by (simp add: officialLink_def js_or_def toLowerCase_def lower_units_def switch_link_def js_simps)
  show "officialLink (JString (js ''deltacargo'')) code = delta_url code"
    by (simp add: officialLink_def js_or_def toLowerCase_def lower_units_def switch_link_def js_simps)
qed

theorem officialLink_case_insensitive_witness:
  "officialLink (JString (js ''DeltaCargo'')) (JString (js ''00612345675''))
     = officialLink (JString (js ''deltacargo'')) (JString (js ''00612345675''))"
proof -
  have "js ''deltacargo'' \<in> set carrier_ids
      \<and> list_all2 (\<lambda>a b. a = b \<or> (0x41 \<le> a \<and> a \<le> 0x5A \<and> b = a + 0x20))
           (js ''DeltaCargo'') (js ''deltacargo'')"
    by (simp add: carrier_ids_def js_simps)
  then show ?thesis
    by (rule officialLink_case_insensitive [THEN conjunct1, THEN mp])
qed

text \<open>
  C8. A request whose carrier is a non-empty string that lower-cases to none of the
  carrier ids, with a truthy code, resolves to no URL (\<open>null\<close>), and both server.js and
  part\_000 answer it 400 with \<open>ok: false\<close>, the error "Carrier no soportado" and the
  carrier, without calling a scraper and without an exception reaching the outer
  \<open>catch\<close>. A request that resolves to a URL is answered 200 with \<open>ok: true\<close>, whatever
  the scraper extracts, so the two outcomes differ.
\<close>

theorem unsupported_carrier_is_client_error:
  "(c \<noteq> [] \<and> truthy code \<and> toLowerCase c \<notin> set carrier_ids \<longrightarrow>
      officialLink (JString c) code = Inr None
      \<and> api_track USE_SCRAPE run (JString c) code
          = (Response 400 (Failed (js ''Carrier no soportado'') (Some (JString c))), [])
      \<and> post_track_000 scrapePublicPage (JString c) code
          = (Response 400 (Failed (js ''Carrier no soportado'') (Some (JString c))), []))
   \<and> (truthy carrier \<and> truthy code \<and> officialLink carrier code = Inr (Some url) \<longrightarrow>
      (\<exists>details. fst (api_track USE_SCRAPE run carrier code)
          = Response 200 (Tracking carrier code url details)))"
proof (intro conjI impI)
  assume h: "c \<noteq> [] \<and> truthy code \<and> toLowerCase c \<notin> set carrier_ids"
  then have s: "switch_link (toLowerCase c) code = Inr None"
    by (simp add: switch_link_unsupported)
  with h show l: "officialLink (JString c) code = Inr None"
    by (simp add: officialLink_def js_or_def)
  from h l show "api_track USE_SCRAPE run (JString c) code
          = (Response 400 (Failed (js ''Carrier no soportado'') (Some (JString c))), [])"
    by (simp add: api_track_def carrier_not_supported_def)
  from h s show "post_track_000 scrapePublicPage (JString c) code
          = (Response 400 (Failed (js ''Carrier no soportado'') (Some (JString c))), [])"
    by (simp add: post_track_000_def officialLink_000_def carrier_not_supported_def)
next
  assume h: "truthy carrier \<and> truthy code \<and> officialLink carrier code = Inr (Some url)"
  then have "url \<noteq> []"
    using officialLink_Some switch_link_nonempty by blast
  with h show "\<exists>details. fst (api_track USE_SCRAPE run carrier code)
          = Response 200 (Tracking carrier code url details)"
    by (cases "scrapeByCarrier run carrier url")
       (auto simp: api_track_def split: sum.splits)
qed

theorem unsupported_carrier_is_client_error_witness:
  "api_track True (\<lambda>s u. Inr []) (JString (js ''zzz-unknown'')) (JString (js ''ABC''))
     = (Response 400 (Failed (js ''Carrier no soportado'') (Some (JString (js ''zzz-unknown'')))), [])
   \<and> post_track_000 (\<lambda>u. Inl (Error [])) (JString (js ''zzz-unknown'')) (JString (js ''ABC''))
     = (Response 400 (Failed (js ''Carrier no soportado'') (Some (JString (js ''zzz-unknown'')))), [])"
proof -
  have h: "js ''zzz-unknown'' \<noteq> [] \<and> truthy (JString (js ''ABC''))
           \<and> toLowerCase (js ''zzz-unknown'') \<notin> set carrier_ids"
    by (simp add: toLowerCase_def lower_units_def carrier_ids_def js_simps)
  show ?thesis
    using unsupported_carrier_is_client_error [THEN conjunct1, THEN mp, OF h]
    by blast
qed







text \<open>
  C1, as the code has it. In the \<open>/api/track\<close> handlers a scrape that throws is caught
  where it happens: for a truthy carrier and code that resolve to a URL, server.js (and
  part\_001) answers 200 with the URL and no extracted field, and part\_000 answers 200
  with the URL and \<open>status\<close>, \<open>eta\<close> and \<open>title\<close> all \<open>null\<close>. The legacy
  \<open>/track/:carrier\<close> handler has no URL to fall back on: on a cache miss, a scrape that
  throws is answered 500 with the message of the error.
\<close>

theorem scrape_failure_falls_back_to_link:
  "(truthy carrier \<and> truthy code \<and> officialLink carrier code = Inr (Some url)
      \<and> fst (scrapeByCarrier run carrier url) = Inl e \<longrightarrow>
      fst (api_track USE_SCRAPE run carrier code) = Response 200 (Tracking carrier code url []))
   \<and> (truthy carrier \<and> truthy code \<and> officialLink_000 carrier code = Inr (Some url)
      \<and> scrapePublicPage url = Inl e \<longrightarrow>
      post_track_000 scrapePublicPage carrier code
        = (Response 200 (Tracking carrier code url [(Status, None), (Eta, None), (Title, None)]),
           [url]))
   \<and> (scrapers_has name \<and> trim number \<noteq> []
      \<and> fst (getFromCache (cacheKey name (trim number)) t_get cache) = None
      \<and> lrun name (trim number) = Inl message \<longrightarrow>
      (\<exists>cache'. track_carrier lrun t_get t_set cache name (JString number)
         = Inr (Response 500 (LegacyFailed (message_or message (js ''Tracking failed''))), cache',
                [(name, trim number)])))"
proof (intro conjI impI)
  assume h: "truthy carrier \<and> truthy code \<and> officialLink carrier code = Inr (Some url)
      \<and> fst (scrapeByCarrier run carrier url) = Inl e"
  then have "url \<noteq> []"
    using officialLink_Some switch_link_nonempty by blast
  with h show "fst (api_track USE_SCRAPE run carrier code)
      = Response 200 (Tracking carrier code url [])"
    by (cases "scrapeByCarrier run carrier url") (auto simp: api_track_def)
next
  assume h: "truthy carrier \<and> truthy code \<and> officialLink_000 carrier code = Inr (Some url)
      \<and> scrapePublicPage url = Inl e"
  then have "officialLink carrier code = Inr (Some url)"
    using officialLink_000_truthy [of carrier code] by auto
  then have "url \<noteq> []"
    using officialLink_Some switch_link_nonempty by blast
  with h show "post_track_000 scrapePublicPage carrier code
        = (Response 200 (Tracking carrier code url [(Status, None), (Eta, None), (Title, None)]),
           [url])"
    by (simp add: post_track_000_def)
next
  assume h: "scrapers_has name \<and> trim number \<noteq> []
      \<and> fst (getFromCache (cacheKey name (trim number)) t_get cache) = None
      \<and> lrun name (trim number) = Inl message"
  then show "\<exists>cache'. track_carrier lrun t_get t_set cache name (JString number)
         = Inr (Response 500 (LegacyFailed (message_or message (js ''Tracking failed''))), cache',
                [(name, trim number)])"
    by (cases "getFromCache (cacheKey name (trim number)) t_get cache")
       (simp add: track_carrier_def scrape_and_store_def number_string)
qed

theorem scrape_failure_falls_back_to_link_witness:
  "fst (api_track True (\<lambda>s u. Inl (Error (js ''timeout''))) (JString (js ''dhl''))
          (JString (js ''1234567890'')))
     = Response 200 (Tracking (JString (js ''dhl'')) (JString (js ''1234567890''))
          (js ''https://www.dhl.com/mx-es/home/rastreo.html?tracking-id=1234567890'') [])"
proof -
  have "truthy (JString (js ''dhl'')) \<and> truthy (JString (js ''1234567890''))
        \<and> officialLink (JString (js ''dhl'')) (JString (js ''1234567890''))
           = Inr (Some (js ''https://www.dhl.com/mx-es/home/rastreo.html?tracking-id=1234567890''))
        \<and> fst (scrapeByCarrier (\<lambda>s u. Inl (Error (js ''timeout''))) (JString (js ''dhl''))
              (js ''https://www.dhl.com/mx-es/home/rastreo.html?tracking-id=1234567890''))
           = Inl (Error (js ''timeout''))"
    by (simp add: officialLink_dhl_example)
       (simp add: scrapeByCarrier_def js_or_def toLowerCase_def lower_units_def char_eq_def
          js_simps)
  then show ?thesis
    using scrape_failure_falls_back_to_link [THEN conjunct1, THEN mp] by blast
qed

text \<open>
  The claim C1 as stated fails in the legacy handler: a scrape of a supported carrier
  that throws is answered 500 with the error's message.
\<close>

theorem legacy_scrape_failure_is_500:
  "track_carrier (\<lambda>c n. Inl (Some (js ''Navigation timeout''))) 0 0 Map.empty
       (js ''dhl'') (JString (js ''1234567890''))
     = Inr (Response 500 (LegacyFailed (js ''Navigation timeout'')), Map.empty,
            [(js ''dhl'', js ''1234567890'')])"
  by (simp add: track_carrier_def scrape_and_store_def number_string scrapers_has_def
      own_scrapers_def trim_def is_space_def getFromCache_def message_or_def js_simps)




text \<open>
  C4, as the code has it. The loop over the date expressions returns the last element of
  the match array of the first expression that matches the text, and \<open>null\<close> when none
  matches. The last element of a match array is the capture of the last group of the
  expression, and each of the four expressions has two or three groups, so it is never
  the first group. The text searched is the page text with whitespace runs collapsed and
  trimmed. For the input "Entrega estimada: 27/08/2025" the ETA is "27/08/2025" (the
  first group holds "estimada"), and for "Estimated delivery: August 27, 2025" it is
  "August 27, 2025". A page text that contains one of the two phrases still contains it
  after the clean-up, and then the ETA is the date of the phrase, whatever follows the
  phrase, when the phrase is where its expression first matches: the first expression
  matches at no earlier start for the Spanish phrase; for the English one the first two
  expressions do not match the text and the third matches at no earlier start.
\<close>

theorem eta_first_candidate_last_group:
  "((\<forall>r \<in> set pre. match True r text = None) \<and> match True re text = Some m \<longrightarrow>
      eta_loop (pre @ re # post) text = last m)
   \<and> ((\<forall>r \<in> set res. match True r text = None) \<longrightarrow> eta_loop res text = None)
   \<and> (search ic r s = Some (whole, caps) \<longrightarrow>
        match ic r s = Some (Some whole # map caps [1 ..< Suc (ngroups r)])
        \<and> (0 < ngroups r \<longrightarrow>
             last (Some whole # map caps [1 ..< Suc (ngroups r)]) = caps (ngroups r)))
   \<and> etaText (extractStatusAndEta bigText)
        = eta_loop etaRegexes (trim (collapse is_space bigText))
   \<and> map ngroups etaRegexes = [2, 3, 2, 2]
   \<and> etaText (extractStatusAndEta (js ''Entrega estimada: 27/08/2025'')) = Some (js ''27/08/2025'')
   \<and> etaText (extractStatusAndEta (js ''Estimated delivery: August 27, 2025''))
        = Some (js ''August 27, 2025'')
   \<and> match True (etaRegexes ! 0) (js ''Entrega estimada: 27/08/2025'')
        = Some [Some (js ''Entrega estimada: 27/08/2025''), Some (js ''estimada''),
                Some (js ''27/08/2025'')]
   \<and> ((\<forall>i < length before.
          rmatch True (etaRegexes ! 0)
            (drop i (before @ js ''Entrega estimada: 27/08/2025'' @ after), Map.empty) = []) \<longrightarrow>
        eta_loop etaRegexes (before @ js ''Entrega estimada: 27/08/2025'' @ after)
          = Some (js ''27/08/2025''))
   \<and> (match True (etaRegexes ! 0) (before @ js ''Estimated delivery: August 27, 2025'' @ after)
          = None
        \<and> match True (etaRegexes ! 1) (before @ js ''Estimated delivery: August 27, 2025'' @ after)
          = None
        \<and> (\<forall>i < length before.
          rmatch True (etaRegexes ! 2)
            (drop i (before @ js ''Estimated delivery: August 27, 2025'' @ after), Map.empty) = []) \<longrightarrow>
        eta_loop etaRegexes (before @ js ''Estimated delivery: August 27, 2025'' @ after)
          = Some (js ''August 27, 2025''))
   \<and> (\<exists>a' b'. trim (collapse is_space (a @ js ''Entrega estimada: 27/08/2025'' @ b))
          = a' @ js ''Entrega estimada: 27/08/2025'' @ b')
   \<and> (\<exists>a' b'. trim (collapse is_space (a @ js ''Estimated delivery: August 27, 2025'' @ b))
          = a' @ js ''Estimated delivery: August 27, 2025'' @ b')
   \<and> (trim (collapse is_space page) = before @ js ''Entrega estimada: 27/08/2025'' @ after
        \<and> (\<forall>i < length before.
          rmatch True (etaRegexes ! 0)
            (drop i (before @ js ''Entrega estimada: 27/08/2025'' @ after), Map.empty) = []) \<longrightarrow>
        etaText (extractStatusAndEta page) = Some (js ''27/08/2025''))
   \<and> (trim (collapse is_space page) = before @ js ''Estimated delivery: August 27, 2025'' @ after
        \<and> match True (etaRegexes ! 0) (before @ js ''Estimated delivery: August 27, 2025'' @ after)
          = None
        \<and> match True (etaRegexes ! 1) (before @ js ''Estimated delivery: August 27, 2025'' @ after)
          = None
        \<and> (\<forall>i < length before.
          rmatch True (etaRegexes ! 2)
            (drop i (before @ js ''Estimated delivery: August 27, 2025'' @ after), Map.empty) = []) \<longrightarrow>
        etaText (extractStatusAndEta page) = Some (js ''August 27, 2025''))"
proof (intro conjI)
  show "(\<forall>r \<in> set pre. match True r text = None) \<and> match True re text = Some m \<longrightarrow>
      eta_loop (pre @ re # post) text = last m"
    by (simp add: eta_loop_first)
  show "(\<forall>r \<in> set res. match True r text = None) \<longrightarrow> eta_loop res text = None"
    by (simp add: eta_loop_no_match)
  show "search ic r s = Some (whole, caps) \<longrightarrow>
        match ic r s = Some (Some whole # map caps [1 ..< Suc (ngroups r)])
        \<and> (0 < ngroups r \<longrightarrow>
             last (Some whole # map caps [1 ..< Suc (ngroups r)]) = caps (ngroups r))"
    using last_match_array by blast
  show "etaText (extractStatusAndEta bigText)
        = eta_loop etaRegexes (trim (collapse is_space bigText))"
    by (rule etaText_eq)
  show "map ngroups etaRegexes = [2, 3, 2, 2]"
    by (rule ngroups_eta)
  show "etaText (extractStatusAndEta (js ''Entrega estimada: 27/08/2025'')) = Some (js ''27/08/2025'')"
    by (simp only: etaText_eq normalized_example_es eta_example_es)
  show "etaText (extractStatusAndEta (js ''Estimated delivery: August 27, 2025''))
        = Some (js ''August 27, 2025'')"
    by (simp only: etaText_eq normalized_example_en eta_example_en)
  show "match True (etaRegexes ! 0) (js ''Entrega estimada: 27/08/2025'')
        = Some [Some (js ''Entrega estimada: 27/08/2025''), Some (js ''estimada''),
                Some (js ''27/08/2025'')]"
    by (rule eta_example_groups)
  show "(\<forall>i < length before.
          rmatch True (etaRegexes ! 0)
            (drop i (before @ js ''Entrega estimada: 27/08/2025'' @ after), Map.empty) = []) \<longrightarrow>
        eta_loop etaRegexes (before @ js ''Entrega estimada: 27/08/2025'' @ after)
          = Some (js ''27/08/2025'')"
    using eta_es_first by blast
  show "match True (etaRegexes ! 0) (before @ js ''Estimated delivery: August 27, 2025'' @ after)
          = None
        \<and> match True (etaRegexes ! 1) (before @ js ''Estimated delivery: August 27, 2025'' @ after)
          = None
        \<and> (\<forall>i < length before.
          rmatch True (etaRegexes ! 2)
            (drop i (before @ js ''Estimated delivery: August 27, 2025'' @ after), Map.empty) = []) \<longrightarrow>
        eta_loop etaRegexes (before @ js ''Estimated delivery: August 27, 2025'' @ after)
          = Some (js ''August 27, 2025'')"
    using eta_en_first by blast
  show "\<exists>a' b'. trim (collapse is_space (a @ js ''Entrega estimada: 27/08/2025'' @ b))
          = a' @ js ''Entrega estimada: 27/08/2025'' @ b'"
    by (rule phrase_es_normalized)
  show "\<exists>a' b'. trim (collapse is_space (a @ js ''Estimated delivery: August 27, 2025'' @ b))
          = a' @ js ''Estimated delivery: August 27, 2025'' @ b'"
    by (rule phrase_en_normalized)
  show "trim (collapse is_space page) = before @ js ''Entrega estimada: 27/08/2025'' @ after
        \<and> (\<forall>i < length before.
          rmatch True (etaRegexes ! 0)
            (drop i (before @ js ''Entrega estimada: 27/08/2025'' @ after), Map.empty) = []) \<longrightarrow>
        etaText (extractStatusAndEta page) = Some (js ''27/08/2025'')"
    using eta_es_first [of before after] by (simp add: etaText_eq)
  show "trim (collapse is_space page) = before @ js ''Estimated delivery: August 27, 2025'' @ after
        \<and> match True (etaRegexes ! 0) (before @ js ''Estimated delivery: August 27, 2025'' @ after)
          = None
        \<and> match True (etaRegexes ! 1) (before @ js ''Estimated delivery: August 27, 2025'' @ after)
          = None
        \<and> (\<forall>i < length before.
          rmatch True (etaRegexes ! 2)
            (drop i (before @ js ''Estimated delivery: August 27, 2025'' @ after), Map.empty) = []) \<longrightarrow>
        etaText (extractStatusAndEta page) = Some (js ''August 27, 2025'')"
    using eta_en_first [of before after] by (simp add: etaText_eq)
qed

theorem eta_first_candidate_last_group_witness:
  "eta_loop ([] @ (etaRegexes ! 0) # tl etaRegexes) (js ''Entrega estimada: 27/08/2025'')
     = Some (js ''27/08/2025'')
   \<and> etaText (extractStatusAndEta (js ''ETA  Entrega estimada: 27/08/2025 aprox''))
     = Some (js ''27/08/2025'')"
proof
  have "(\<forall>r \<in> set []. match True r (js ''Entrega estimada: 27/08/2025'') = None)
        \<and> match True (etaRegexes ! 0) (js ''Entrega estimada: 27/08/2025'')
           = Some [Some (js ''Entrega estimada: 27/08/2025''), Some (js ''estimada''),
                   Some (js ''27/08/2025'')]"
    by (simp add: eta_example_groups)
  then have "eta_loop ([] @ (etaRegexes ! 0) # tl etaRegexes) (js ''Entrega estimada: 27/08/2025'')
      = last [Some (js ''Entrega estimada: 27/08/2025''), Some (js ''estimada''),
              Some (js ''27/08/2025'')]"
    by (rule eta_first_candidate_last_group [THEN conjunct1, THEN mp])
  then show "eta_loop ([] @ (etaRegexes ! 0) # tl etaRegexes) (js ''Entrega estimada: 27/08/2025'')
     = Some (js ''27/08/2025'')"
    by simp
next
  have len: "length (js ''ETA '') = 4"
    by (simp add: js_simps)
  have "trim (collapse is_space (js ''ETA  Entrega estimada: 27/08/2025 aprox''))
          = js ''ETA '' @ js ''Entrega estimada: 27/08/2025'' @ js '' aprox''"
    by (simp add: trim_def is_space_def js_simps)
  moreover have "\<forall>i < length (js ''ETA '').
          rmatch True (etaRegexes ! 0)
            (drop i (js ''ETA '' @ js ''Entrega estimada: 27/08/2025'' @ js '' aprox''), Map.empty) = []"
    unfolding len all_less_4 by (simp add: re_defs js_simps)
  ultimately have "trim (collapse is_space (js ''ETA  Entrega estimada: 27/08/2025 aprox''))
          = js ''ETA '' @ js ''Entrega estimada: 27/08/2025'' @ js '' aprox''
        \<and> (\<forall>i < length (js ''ETA '').
          rmatch True (etaRegexes ! 0)
            (drop i (js ''ETA '' @ js ''Entrega estimada: 27/08/2025'' @ js '' aprox''), Map.empty) = [])"
    by (rule conjI)
  then show "etaText (extractStatusAndEta (js ''ETA  Entrega estimada: 27/08/2025 aprox''))
     = Some (js ''27/08/2025'')"
    by (rule eta_first_candidate_last_group [THEN conjunct2, THEN conjunct2, THEN conjunct2,
          THEN conjunct2, THEN conjunct2, THEN conjunct2, THEN conjunct2, THEN conjunct2,
          THEN conjunct2, THEN conjunct2, THEN conjunct2, THEN conjunct2, THEN conjunct1, THEN mp])
qed

text \<open>
  The claim C4 as stated fails for an input that merely contains the phrase: in
  "Entrega prevista: 01/01/2020 Entrega estimada: 27/08/2025" the first expression
  matches earlier, and the ETA is "01/01/2020"; in
  "Estimated delivery: August 27, 2025. Entrega estimada: 27/08/2025" the first
  expression matches, so the third is never tried, and the ETA is "27/08/2025", not
  "August 27, 2025".
\<close>

theorem eta_earlier_match_wins:
  "str_includes False (js ''Entrega estimada: 27/08/2025'')
       (js ''Entrega prevista: 01/01/2020 Entrega estimada: 27/08/2025'')
   \<and> etaText (extractStatusAndEta (js ''Entrega prevista: 01/01/2020 Entrega estimada: 27/08/2025''))
       = Some (js ''01/01/2020'')
   \<and> etaText (extractStatusAndEta (js ''Entrega prevista: 01/01/2020 Entrega estimada: 27/08/2025''))
       \<noteq> Some (js ''27/08/2025'')
   \<and> str_includes False (js ''Estimated delivery: August 27, 2025'')
       (js ''Estimated delivery: August 27, 2025. Entrega estimada: 27/08/2025'')
   \<and> etaText (extractStatusAndEta
         (js ''Estimated delivery: August 27, 2025. Entrega estimada: 27/08/2025''))
       = Some (js ''27/08/2025'')
   \<and> etaText (extractStatusAndEta
         (js ''Estimated delivery: August 27, 2025. Entrega estimada: 27/08/2025''))
       \<noteq> Some (js ''August 27, 2025'')"
  by (simp add: etaText_eq trim_def re_defs js_simps)

text \<open>
  C2, as the code has it. There is no canonical vocabulary: the status is raw text. In
  part\_000 it is the stretch of the normalized page text (whitespace runs collapsed,
  trimmed) matched by the first keyword of \<open>statusCandidates\<close> that occurs in it, letter
  case ignored: for every keyword of the list, when it occurs in the normalized text and
  no keyword listed before it does, the status is an occurrence of that keyword as the
  page writes it. Every keyword of the list that occurs in the page text occurs in the
  normalized text. So when the page text holds "entregado" in any letter case, the
  status is an occurrence of it as the page writes it; when the page text holds
  "in transit" and none of the eight keywords listed before it occurs in the normalized
  text, the status is an occurrence of "in transit" as written. The status is \<open>null\<close>
  exactly when no keyword occurs in the normalized text. The legacy \<open>extractStatus\<close>
  returns the first keyword of its own list that occurs, spelled as the list spells it,
  and its callers report that keyword; it returns \<open>null\<close> when none occurs, which its
  callers replace by 'Unknown'.
\<close>

theorem status_is_raw_match:
  "(statusCandidates = earlier @ Lit k # later
        \<and> (\<forall>r \<in> set earlier. \<not> test True r (trim (collapse is_space bigText)))
        \<and> str_includes True k (trim (collapse is_space bigText)) \<longrightarrow>
      (\<exists>w. status (extractStatusAndEta bigText) = Some w
           \<and> list_all2 (char_eq True) k w
           \<and> str_includes False w (trim (collapse is_space bigText))))
   \<and> (Lit k \<in> set statusCandidates \<and> str_includes True k bigText \<longrightarrow>
        test True (Lit k) (trim (collapse is_space bigText))
        \<and> str_includes True k (trim (collapse is_space bigText)))
   \<and> (str_includes True (js ''entregado'') bigText \<longrightarrow>
      (\<exists>w. status (extractStatusAndEta bigText) = Some w
           \<and> list_all2 (char_eq True) (js ''entregado'') w
           \<and> str_includes False w (trim (collapse is_space bigText))))
   \<and> ((\<forall>r \<in> set (take 8 statusCandidates). \<not> test True r (trim (collapse is_space bigText)))
        \<and> str_includes True (js ''in transit'') bigText \<longrightarrow>
      (\<exists>w. status (extractStatusAndEta bigText) = Some w
           \<and> list_all2 (char_eq True) (js ''in transit'') w
           \<and> str_includes False w (trim (collapse is_space bigText))))
   \<and> (status (extractStatusAndEta bigText) = None
        \<longleftrightarrow> (\<forall>r \<in> set statusCandidates. \<not> test True r (trim (collapse is_space bigText))))
   \<and> ((\<forall>q \<in> set pre. \<not> str_includes True q text) \<and> str_includes True p text
        \<and> statuses = pre @ p # post \<longrightarrow>
      extractStatus text = Some p \<and> latest_status text = p)
   \<and> ((\<forall>q \<in> set statuses. \<not> str_includes True q text) \<longrightarrow>
      extractStatus text = None \<and> latest_status text = js ''Unknown'')"
proof (intro conjI impI)
  assume "statusCandidates = earlier @ Lit k # later
        \<and> (\<forall>r \<in> set earlier. \<not> test True r (trim (collapse is_space bigText)))
        \<and> str_includes True k (trim (collapse is_space bigText))"
  then show "\<exists>w. status (extractStatusAndEta bigText) = Some w
           \<and> list_all2 (char_eq True) k w
           \<and> str_includes False w (trim (collapse is_space bigText))"
    using find_status_first [of earlier _ k later]
    by (simp add: status_eq)
next
  assume h: "Lit k \<in> set statusCandidates \<and> str_includes True k bigText"
  then show "str_includes True k (trim (collapse is_space bigText))"
    using candidate_normalized by blast
  then show "test True (Lit k) (trim (collapse is_space bigText))"
    by (simp add: test_Lit)
next
  assume "str_includes True (js ''entregado'') bigText"
  then have "str_includes True (js ''entregado'') (trim (collapse is_space bigText))"
    by (rule entregado_normalized)
  then show "\<exists>w. status (extractStatusAndEta bigText) = Some w
           \<and> list_all2 (char_eq True) (js ''entregado'') w
           \<and> str_includes False w (trim (collapse is_space bigText))"
    using find_status_first [of "[]" _ "js ''entregado''" "tl statusCandidates"]
      candidates_entregado
    by (simp add: status_eq)
next
  assume "(\<forall>r \<in> set (take 8 statusCandidates). \<not> test True r (trim (collapse is_space bigText)))
        \<and> str_includes True (js ''in transit'') bigText"
  then have "(\<forall>r \<in> set (take 8 statusCandidates). \<not> test True r (trim (collapse is_space bigText)))
        \<and> str_includes True (js ''in transit'') (trim (collapse is_space bigText))"
    using in_transit_normalized by blast
  then show "\<exists>w. status (extractStatusAndEta bigText) = Some w
           \<and> list_all2 (char_eq True) (js ''in transit'') w
           \<and> str_includes False w (trim (collapse is_space bigText))"
    using find_status_first [of "take 8 statusCandidates" _ "js ''in transit''"
        "drop 9 statusCandidates"] candidates_in_transit
    by (simp add: status_eq)
next
  show "status (extractStatusAndEta bigText) = None
        \<longleftrightarrow> (\<forall>r \<in> set statusCandidates. \<not> test True r (trim (collapse is_space bigText)))"
    by (simp only: status_eq find_status_None_iff)
next
  assume h: "(\<forall>q \<in> set pre. \<not> str_includes True q text) \<and> str_includes True p text
        \<and> statuses = pre @ p # post"
  then show "extractStatus text = Some p"
    using extractStatus_first by blast
  from h show "latest_status text = p"
    using latest_status_first by blast
next
  assume h: "\<forall>q \<in> set statuses. \<not> str_includes True q text"
  then show "extractStatus text = None"
    by (rule extractStatus_none)
  from h show "latest_status text = js ''Unknown''"
    by (simp add: latest_status_def extractStatus_none)
qed

theorem status_is_raw_match_witness:
  "\<exists>w. status (extractStatusAndEta (js ''Package  DELIVERED today'')) = Some w
       \<and> list_all2 (char_eq True) (js ''delivered'') w
       \<and> str_includes False w (trim (collapse is_space (js ''Package  DELIVERED today'')))"
proof -
  have "statusCandidates = take 6 statusCandidates @ Lit (js ''delivered'') # drop 7 statusCandidates
        \<and> (\<forall>r \<in> set (take 6 statusCandidates).
              \<not> test True r (trim (collapse is_space (js ''Package  DELIVERED today''))))
        \<and> str_includes True (js ''delivered'')
              (trim (collapse is_space (js ''Package  DELIVERED today'')))"
    by (simp add: trim_def re_defs js_simps)
  then show ?thesis
    by (rule status_is_raw_match [THEN conjunct1, THEN mp])
qed

text \<open>
  The claim C2 as stated fails: for the page text "Entregado" the status is "Entregado",
  not \<open>delivered\<close>; for "In Transit" it is "In Transit", not \<open>in_transit\<close>; and the legacy
  server reports "Entregado" for "ENTREGADO".
\<close>

theorem status_not_canonical:
  "status (extractStatusAndEta (js ''Entregado'')) = Some (js ''Entregado'')
   \<and> status (extractStatusAndEta (js ''Entregado'')) \<noteq> Some (js ''delivered'')
   \<and> status (extractStatusAndEta (js ''In Transit'')) = Some (js ''In Transit'')
   \<and> status (extractStatusAndEta (js ''In Transit'')) \<noteq> Some (js ''in_transit'')
   \<and> latest_status (js ''ENTREGADO'') = js ''Entregado''"
  by (simp add: status_eq find_status_def trim_def latest_status_def extractStatus_def statuses_def
      re_defs js_simps)

text \<open>
  C3, as the code has it. \<open>sanitize\<close> collapses the whitespace before it strips the
  phrases, and does not collapse again. A second pass changes nothing exactly when the
  first pass left a clean text: \<open>sanitize (sanitize x) = sanitize x\<close> holds if and only if
  \<open>sanitize x\<close> is unchanged by the collapsing step and holds neither boilerplate
  phrase, letter case ignored; and \<open>sanitize x\<close> is unchanged by the collapsing step if
  and only if it holds no two spaces side by side. This is so for every input in which,
  once the non-breaking spaces are replaced and the runs of spaces and tabs collapsed,
  neither phrase occurs; and it is so for inputs such as "skip to main content", a line
  break, "Estado: Entregado", where a phrase is stripped and what is left is clean.
\<close>

theorem sanitize_idempotent_iff_clean:
  "(sanitize (sanitize x) = sanitize x \<longleftrightarrow>
      collapse space_or_tab (sanitize x) = sanitize x
      \<and> \<not> str_includes True skip_en (sanitize x)
      \<and> \<not> str_includes True skip_es (sanitize x))
   \<and> (collapse space_or_tab (sanitize x) = sanitize x
        \<longleftrightarrow> \<not> str_includes False [0x20, 0x20] (sanitize x))
   \<and> (\<not> str_includes True skip_en (collapse space_or_tab (replace_nbsp x))
      \<and> \<not> str_includes True skip_es (collapse space_or_tab (replace_nbsp x))
      \<longrightarrow> sanitize (sanitize x) = sanitize x)"
  using sanitize_fixed_point [of x] sanitize_collapse_fixed [of x] sanitize_no_phrase [of x]
  by blast

theorem sanitize_idempotent_iff_clean_witness:
  "sanitize (sanitize (js ''skip to main content'' @ [0x0A] @ js ''Estado: Entregado''))
     = sanitize (js ''skip to main content'' @ [0x0A] @ js ''Estado: Entregado'')
   \<and> sanitize (sanitize (js ''  Estado:   Entregado  '')) = sanitize (js ''  Estado:   Entregado  '')"
proof
  let ?x = "js ''skip to main content'' @ [0x0A] @ js ''Estado: Entregado''"
  have y: "sanitize ?x = js ''Estado: Entregado''"
    by (simp add: sanitize_eval)
  have "collapse space_or_tab (sanitize ?x) = sanitize ?x
      \<and> \<not> str_includes True skip_en (sanitize ?x)
      \<and> \<not> str_includes True skip_es (sanitize ?x)"
    unfolding y by (simp add: sanitize_eval)
  then show "sanitize (sanitize ?x) = sanitize ?x"
    by (rule sanitize_idempotent_iff_clean [THEN conjunct1, THEN iffD2])
next
  have "\<not> str_includes True skip_en (collapse space_or_tab (replace_nbsp (js ''  Estado:   Entregado  '')))
   \<and> \<not> str_includes True skip_es (collapse space_or_tab (replace_nbsp (js ''  Estado:   Entregado  '')))"
    by (simp add: sanitize_eval)
  then show "sanitize (sanitize (js ''  Estado:   Entregado  '')) = sanitize (js ''  Estado:   Entregado  '')"
    by (rule sanitize_idempotent_iff_clean [THEN conjunct2, THEN conjunct2, THEN mp])
qed

text \<open>
  The claim C3 as stated fails: cutting a phrase out of "a skip to main content b"
  leaves the two spaces around it side by side, and a second pass collapses them.
\<close>

theorem sanitize_not_idempotent:
  "sanitize (js ''a skip to main content b'') = js ''a  b''
   \<and> sanitize (sanitize (js ''a skip to main content b'')) = js ''a b''
   \<and> sanitize (sanitize (js ''a skip to main content b''))
        \<noteq> sanitize (js ''a skip to main content b'')"
  by (simp add: sanitize_eval)

end
